theory Spec2Isabelle
  imports Main
begin

section \<open>The bookstore's order and payment tables\<close>

text \<open>
  The payment core of the bookstore lives in PostgreSQL.  Its tables are orders
  (\<^verbatim>\<open>src/database/migrations/004_create_orders.sql\<close>), books (migration 002, the
  fourth document of \<^verbatim>\<open>src/database/migrations/012_add_password_reset_and_verification.sql\<close>),
  payment_logs and user_purchases (migration 005, \<^verbatim>\<open>src/unnamed/part_007\<close>), audit_logs
  (migration 006, \<^verbatim>\<open>src/unnamed/part_006\<close>) and webhook_events
  (\<^verbatim>\<open>src/database/migrations/010_payment_service_enhancements.sql\<close>).  Its PL/pgSQL
  functions are \<open>create_order_with_idempotency\<close> and \<open>process_webhook_event\<close> (migration
  010) and \<open>complete_payment_atomic\<close> and \<open>cleanup_expired_orders\<close> (migration 007, the
  second document of \<^verbatim>\<open>src/database/migrations/011_add_refresh_tokens.sql\<close>, which also adds
  the CHECK constraints of orders and user_purchases).

  A table is the list of its rows in insertion order, a row is a record with one field
  per column, a nullable column is an \<open>option\<close>, and a function of the database takes the
  database and returns the new one together with the JSON value it returns.

  Conventions of the embedding:
  \<^item> \<open>NOW()\<close> is the start time of the transaction, so each function takes it as the
    argument \<open>now\<close>; timestamps are seconds as integers.
  \<^item> The surrogate keys that \<open>DEFAULT gen_random_uuid()\<close> fills in for user_purchases,
    payment_logs, audit_logs and webhook_events are read by no function (one existence
    test apart) and are left out; \<open>orders.id\<close> is referenced by the other tables and is
    kept.
  \<^item> A value drawn at random by the code (\<open>gen_random_uuid()\<close>, \<open>RANDOM()\<close>) is an argument.
  \<^item> Arguments are not NULL (but \<open>p_idempotency_key\<close>, whose default is NULL).  PostgreSQL
    drops the length and precision of a parameter's declared type, so
    \<open>create_order_with_idempotency\<close> receives any number and any text; the coercion of
    its values to \<open>DECIMAL(12,2)\<close>, \<open>VARCHAR(50)\<close> and \<open>VARCHAR(255)\<close> is part of its
    embedding.  The texts that the other functions store are taken to fit their columns.
  \<^item> The status column carries \<open>DEFAULT 'pending'\<close> and a CHECK that lists six literals;
    it is the enumeration of those six.
  \<^item> A statement that violates a declared constraint raises; the constraints that a
    statement of these functions can violate are checked by the insert functions below.
    The rows that \<open>complete_payment_atomic\<close> inserts copy their references from the
    order row, which satisfies the same foreign keys, so only the unique constraint of
    user_purchases can stop them.
  \<^item> The functions are \<open>SECURITY DEFINER\<close>: they run as the owner of the tables, to whom
    the row-level security policies of migrations 007 and 010 do not apply.
\<close>

type_synonym uuid = nat
type_synonym timestamp = int
type_synonym jsonb = string

datatype order_status = Pending | Paid | Failed | Cancelled | Refunded | Expired

fun status_text :: "order_status \<Rightarrow> string" where
  "status_text Pending = ''pending''"
| "status_text Paid = ''paid''"
| "status_text Failed = ''failed''"
| "status_text Cancelled = ''cancelled''"
| "status_text Refunded = ''refunded''"
| "status_text Expired = ''expired''"

text \<open>The books table (\<^verbatim>\<open>002_create_books.sql\<close>).  The functions read two of its columns,
  \<open>id UUID PRIMARY KEY\<close> and \<open>is_active BOOLEAN DEFAULT true\<close>, which may be NULL; the
  sixteen other columns (title, author, price, ...) are read and written by no function
  here and are left out.\<close>

record books_row =
  b_id :: uuid
  is_active :: "bool option"

record orders_row =
  o_id :: uuid
  user_id :: "uuid option"
  book_id :: "uuid option"
  order_number :: string
  amount :: int
  status :: order_status
  payment_method :: "string option"
  midtrans_order_id :: "string option"
  payment_url :: "string option"
  paid_at :: "timestamp option"
  expires_at :: "timestamp option"
  idempotency_key :: "string option"
  created_at :: timestamp
  updated_at :: timestamp

record user_purchases_row =
  up_user_id :: "uuid option"
  up_book_id :: "uuid option"
  up_order_id :: "uuid option"
  purchased_at :: "timestamp option"
  download_count :: "int option"
  last_downloaded_at :: "timestamp option"

text \<open>Errors that a statement raises, by SQLSTATE class and constraint name; \<open>SQLERRM\<close> is
  the message PostgreSQL prints for the error and stays symbolic.\<close>

datatype sql_error =
  unique_violation string
| check_violation string
| foreign_key_violation string
| numeric_value_out_of_range string
| string_data_right_truncation string

datatype json =
  JBool bool
| JText string
| JUuid uuid
| JNum int
| SQLERRM sql_error

type_synonym json_object = "(string \<times> json) list"

record payment_logs_row =
  pl_order_id :: "uuid option"
  pl_transaction_id :: "string option"
  payment_type :: "string option"
  gross_amount :: "int option"
  transaction_status :: "string option"
  fraud_status :: "string option"
  settlement_time :: "timestamp option"
  webhook_data :: "jsonb option"
  pl_created_at :: "timestamp option"

record audit_logs_row =
  al_user_id :: "uuid option"
  action :: string
  resource_type :: "string option"
  resource_id :: "uuid option"
  details :: "json_object option"
  al_created_at :: "timestamp option"

record webhook_events_row =
  we_transaction_id :: string
  we_order_id :: string
  we_event_type :: string
  payload :: "jsonb option"
  we_created_at :: "timestamp option"

text \<open>Modelled from the spec: the users table.  Its migration (001) is missing from the
  sources; orders, user_purchases and audit_logs reference \<open>users(id)\<close>, so the table is
  the list of its ids.\<close>

record db =
  users :: "uuid list"
  books :: "books_row list"
  orders :: "orders_row list"
  user_purchases :: "user_purchases_row list"
  payment_logs :: "payment_logs_row list"
  audit_logs :: "audit_logs_row list"
  webhook_events :: "webhook_events_row list"

subsection \<open>Constraints of the tables\<close>

text \<open>\<open>UNIQUE(user_id, book_id)\<close> of user_purchases.  Two rows conflict when both columns
  are equal and not NULL: PostgreSQL treats NULLs as distinct in a unique index.\<close>

definition same_user_book :: "uuid option \<Rightarrow> uuid option \<Rightarrow> user_purchases_row \<Rightarrow> bool" where
  "same_user_book u b p =
     (u \<noteq> None \<and> b \<noteq> None \<and> up_user_id p = u \<and> up_book_id p = b)"

definition insert_user_purchases :: "user_purchases_row \<Rightarrow> db \<Rightarrow> sql_error + db" where
  "insert_user_purchases r s =
     (if list_ex (same_user_book (up_user_id r) (up_book_id r)) (user_purchases s)
      then Inl (unique_violation ''user_purchases_user_id_book_id_key'')
      else Inr (s\<lparr>user_purchases := user_purchases s @ [r]\<rparr>))"

definition insert_payment_logs :: "payment_logs_row \<Rightarrow> db \<Rightarrow> sql_error + db" where
  "insert_payment_logs r s = Inr (s\<lparr>payment_logs := payment_logs s @ [r]\<rparr>)"

definition insert_audit_logs :: "audit_logs_row \<Rightarrow> db \<Rightarrow> sql_error + db" where
  "insert_audit_logs r s = Inr (s\<lparr>audit_logs := audit_logs s @ [r]\<rparr>)"

text \<open>The table satisfies its unique constraint when no row conflicts with a later one.\<close>

fun unique_user_book :: "user_purchases_row list \<Rightarrow> bool" where
  "unique_user_book [] = True"
| "unique_user_book (p # ps) =
     (\<not> list_ex (same_user_book (up_user_id p) (up_book_id p)) ps \<and> unique_user_book ps)"

section \<open>Atomic payment completion (migration 007)\<close>

text \<open>
  \<^verbatim>\<open>complete_payment_atomic(p_order_number, p_transaction_id, p_webhook_data)\<close>.
  The body between \<open>BEGIN\<close> and \<open>EXCEPTION\<close> runs statement by statement and stops at
  the first error; \<open>UPDATE orders ... WHERE id = v_order.id\<close> rewrites every row with that
  id.  The block's \<open>EXCEPTION WHEN OTHERS\<close> handler catches any error: PL/pgSQL then
  rolls back every change the block made and the function returns the error as JSON.
  The two triggers on orders touch only \<open>updated_at\<close>, which the statement itself sets to
  \<open>NOW()\<close>, and payment_analytics_cache, a table that no function here reads.
\<close>

definition mark_paid :: "timestamp \<Rightarrow> uuid \<Rightarrow> orders_row \<Rightarrow> orders_row" where
  "mark_paid now i o' =
     (if o_id o' = i then o'\<lparr>status := Paid, paid_at := Some now, updated_at := now\<rparr> else o')"

definition purchase_of :: "timestamp \<Rightarrow> orders_row \<Rightarrow> user_purchases_row" where
  "purchase_of now v_order =
     \<lparr>up_user_id = user_id v_order, up_book_id = book_id v_order,
      up_order_id = Some (o_id v_order), purchased_at = Some now,
      download_count = Some 0, last_downloaded_at = None\<rparr>"

definition payment_log_of :: "timestamp \<Rightarrow> orders_row \<Rightarrow> string \<Rightarrow> jsonb \<Rightarrow> payment_logs_row" where
  "payment_log_of now v_order p_transaction_id p_webhook_data =
     \<lparr>pl_order_id = Some (o_id v_order), pl_transaction_id = Some p_transaction_id,
      payment_type = None, gross_amount = None,
      transaction_status = Some ''settlement'', fraud_status = None,
      settlement_time = None, webhook_data = Some p_webhook_data,
      pl_created_at = Some now\<rparr>"

definition payment_audit_of :: "timestamp \<Rightarrow> orders_row \<Rightarrow> string \<Rightarrow> audit_logs_row" where
  "payment_audit_of now v_order p_transaction_id =
     \<lparr>al_user_id = user_id v_order, action = ''PAYMENT_COMPLETED'',
      resource_type = Some ''order'', resource_id = Some (o_id v_order),
      details = Some [(''transaction_id'', JText p_transaction_id),
                      (''amount'', JNum (amount v_order))],
      al_created_at = Some now\<rparr>"

text \<open>\<open>SELECT * INTO v_order FROM orders WHERE order_number = p_order_number FOR UPDATE\<close>:
  the first matching row, if any.\<close>

definition select_order :: "string \<Rightarrow> db \<Rightarrow> orders_row option" where
  "select_order p_order_number s = find (\<lambda>r. order_number r = p_order_number) (orders s)"

definition order_status_of :: "string \<Rightarrow> db \<Rightarrow> order_status option" where
  "order_status_of p_order_number s = map_option status (select_order p_order_number s)"

definition complete_payment_body ::
  "timestamp \<Rightarrow> string \<Rightarrow> string \<Rightarrow> jsonb \<Rightarrow> db \<Rightarrow> sql_error + (json_object \<times> db)" where
  "complete_payment_body now p_order_number p_transaction_id p_webhook_data s =
     (case select_order p_order_number s of
        None \<Rightarrow> Inr ([(''success'', JBool False), (''error'', JText ''ORDER_NOT_FOUND'')], s)
      | Some v_order \<Rightarrow>
          if list_ex (\<lambda>p. up_order_id p = Some (o_id v_order)) (user_purchases s)
          then Inr ([(''success'', JBool True), (''error'', JText ''ALREADY_PROCESSED''),
                     (''message'', JText ''Payment sudah diproses sebelumnya'')], s)
          else if status v_order \<noteq> Pending
          then Inr ([(''success'', JBool False), (''error'', JText ''ORDER_NOT_PENDING''),
                     (''current_status'', JText (status_text (status v_order)))], s)
          else
            (case insert_user_purchases (purchase_of now v_order)
                    (s\<lparr>orders := map (mark_paid now (o_id v_order)) (orders s)\<rparr>) of
               Inl e \<Rightarrow> Inl e
             | Inr s2 \<Rightarrow>
                 (case insert_payment_logs
                         (payment_log_of now v_order p_transaction_id p_webhook_data) s2 of
                    Inl e \<Rightarrow> Inl e
                  | Inr s3 \<Rightarrow>
                      (case insert_audit_logs (payment_audit_of now v_order p_transaction_id) s3 of
                         Inl e \<Rightarrow> Inl e
                       | Inr s4 \<Rightarrow>
                           Inr ([(''success'', JBool True), (''order_id'', JUuid (o_id v_order))],
                                s4)))))"

definition complete_payment_atomic ::
  "timestamp \<Rightarrow> string \<Rightarrow> string \<Rightarrow> jsonb \<Rightarrow> db \<Rightarrow> json_object \<times> db" where
  "complete_payment_atomic now p_order_number p_transaction_id p_webhook_data s =
     (case complete_payment_body now p_order_number p_transaction_id p_webhook_data s of
        Inl e \<Rightarrow> ([(''success'', JBool False), (''error'', SQLERRM e)], s)
      | Inr r \<Rightarrow> r)"

section \<open>Order creation with an idempotency key (migration 010)\<close>

text \<open>
  A value of type \<open>numeric\<close> is a decimal number: the pair \<open>(d, e)\<close> is \<open>d / 10 ^ e\<close>, so
  \<open>(5000000, 2)\<close> is 50000.00 and \<open>(4, 3)\<close> is 0.004.  The column \<open>orders.amount\<close> is
  \<open>DECIMAL(12,2)\<close> and holds its value in hundredths.  Storing a number into it rounds the
  number to two decimals, ties away from zero, and raises \<open>numeric field overflow\<close> when
  the rounded number has more than ten digits before the decimal point.
  (The special values \<open>NaN\<close> and \<open>Infinity\<close> of the type are left out.)
\<close>

type_synonym numeric = "int \<times> nat"

definition round_half_away :: "int \<Rightarrow> int \<Rightarrow> int" where
  "round_half_away n d = sgn n * ((2 * \<bar>n\<bar> + d) div (2 * d))"

definition hundredths :: "numeric \<Rightarrow> int" where
  "hundredths x =
     (if snd x \<le> 2 then fst x * 10 ^ (2 - snd x)
      else round_half_away (fst x) (10 ^ (snd x - 2)))"

definition decimal_12_2 :: "numeric \<Rightarrow> sql_error + int" where
  "decimal_12_2 x =
     (if 10 ^ 12 \<le> \<bar>hundredths x\<bar>
      then Inl (numeric_value_out_of_range ''numeric field overflow'')
      else Inr (hundredths x))"

text \<open>Storing a text into a \<open>VARCHAR(n)\<close> column or PL/pgSQL variable: a text longer than
  \<open>n\<close> raises, unless the characters beyond \<open>n\<close> are all spaces, which are cut off.\<close>

definition varchar :: "nat \<Rightarrow> string \<Rightarrow> sql_error + string" where
  "varchar n t =
     (if length t \<le> n then Inr t
      else if list_all (\<lambda>c. c = CHR '' '') (drop n t) then Inr (take n t)
      else Inl (string_data_right_truncation ''value too long for type character varying''))"

text \<open>
  \<open>INSERT INTO orders\<close> checks, in PostgreSQL's order, the CHECK constraints of the new
  row (a CHECK passes on NULL), then the unique indexes (NULLs are distinct), then the
  foreign keys at the end of the statement.  The row it is given holds the values as
  already coerced to the column types.
\<close>

definition insert_orders :: "orders_row \<Rightarrow> db \<Rightarrow> sql_error + db" where
  "insert_orders r s =
     (if \<not> 0 < amount r then Inl (check_violation ''orders_amount_positive'')
      else if (case expires_at r of None \<Rightarrow> False | Some e \<Rightarrow> \<not> created_at r < e)
      then Inl (check_violation ''orders_expires_after_created'')
      else if list_ex (\<lambda>x. o_id x = o_id r) (orders s)
      then Inl (unique_violation ''orders_pkey'')
      else if list_ex (\<lambda>x. order_number x = order_number r) (orders s)
      then Inl (unique_violation ''orders_order_number_key'')
      else if midtrans_order_id r \<noteq> None \<and>
              list_ex (\<lambda>x. midtrans_order_id x = midtrans_order_id r) (orders s)
      then Inl (unique_violation ''orders_midtrans_order_id_key'')
      else if idempotency_key r \<noteq> None \<and>
              list_ex (\<lambda>x. idempotency_key x = idempotency_key r) (orders s)
      then Inl (unique_violation ''orders_idempotency_key_key'')
      else if (case user_id r of None \<Rightarrow> False | Some u \<Rightarrow> \<not> List.member (users s) u)
      then Inl (foreign_key_violation ''orders_user_id_fkey'')
      else if (case book_id r of None \<Rightarrow> False
               | Some b \<Rightarrow> \<not> list_ex (\<lambda>x. b_id x = b) (books s))
      then Inl (foreign_key_violation ''orders_book_id_fkey'')
      else Inr (s\<lparr>orders := orders s @ [r]\<rparr>))"

text \<open>Decimal text of a number, and \<open>LPAD(text, n, fill)\<close>, which truncates a text longer
  than \<open>n\<close>.\<close>

function nat_text :: "nat \<Rightarrow> string" where
  "nat_text n =
     (if n < 10 then [char_of (48 + n)] else nat_text (n div 10) @ [char_of (48 + n mod 10)])"
  by pat_completeness auto
termination
  by (relation "measure id") auto

declare nat_text.simps [simp del]

definition LPAD :: "string \<Rightarrow> nat \<Rightarrow> char \<Rightarrow> string" where
  "LPAD t n c = (if n \<le> length t then take n t else replicate (n - length t) c @ t)"

text \<open>
  \<^verbatim>\<open>create_order_with_idempotency(p_user_id, p_book_id, p_amount, p_payment_method,
  p_idempotency_key DEFAULT NULL)\<close>.
  The random draws are arguments: \<open>v_order_id\<close> is the value of \<open>gen_random_uuid()\<close>,
  \<open>today\<close> is \<open>TO_CHAR(NOW(), 'YYYYMMDD')\<close> and \<open>rnd\<close> is \<open>FLOOR(RANDOM() * 999999)\<close>.

  The body between \<open>BEGIN\<close> and \<open>EXCEPTION\<close> stops at the first error.  The assignment to
  \<open>v_order_number VARCHAR(50)\<close> coerces the text; the \<open>INSERT\<close> first evaluates its
  \<open>VALUES\<close> list, coercing \<open>p_amount\<close>, \<open>p_payment_method\<close> and \<open>p_idempotency_key\<close> to
  their columns in that order, and then checks the constraints of the row.  The handler
  maps a unique violation to \<open>DUPLICATE_ORDER\<close> and any other error to its message; the
  block changed nothing when a statement raised.
\<close>

definition new_order ::
  "timestamp \<Rightarrow> uuid \<Rightarrow> string \<Rightarrow> uuid \<Rightarrow> uuid \<Rightarrow> int \<Rightarrow> string \<Rightarrow> string option
     \<Rightarrow> orders_row" where
  "new_order now v_order_id v_order_number p_user_id p_book_id v_amount v_payment_method
     v_idempotency_key =
     \<lparr>o_id = v_order_id, user_id = Some p_user_id, book_id = Some p_book_id,
      order_number = v_order_number,
      amount = v_amount, status = Pending, payment_method = Some v_payment_method,
      midtrans_order_id = None, payment_url = None, paid_at = None,
      expires_at = Some (now + 24 * 3600), idempotency_key = v_idempotency_key,
      created_at = now, updated_at = now\<rparr>"

definition generate_order_number :: "string \<Rightarrow> nat \<Rightarrow> string" where
  "generate_order_number today rnd = ''ORD-'' @ today @ ''-'' @ LPAD (nat_text rnd) 6 (CHR ''0'')"

definition varchar_opt :: "nat \<Rightarrow> string option \<Rightarrow> sql_error + string option" where
  "varchar_opt n t =
     (case t of
        None \<Rightarrow> Inr None
      | Some k \<Rightarrow> (case varchar n k of Inl e \<Rightarrow> Inl e | Inr k' \<Rightarrow> Inr (Some k')))"

definition create_order_body ::
  "timestamp \<Rightarrow> uuid \<Rightarrow> string \<Rightarrow> nat \<Rightarrow> uuid \<Rightarrow> uuid \<Rightarrow> numeric \<Rightarrow> string \<Rightarrow> string option
     \<Rightarrow> db \<Rightarrow> sql_error + (json_object \<times> db)" where
  "create_order_body now v_order_id today rnd p_user_id p_book_id p_amount
     p_payment_method p_idempotency_key s =
     (if \<not> list_ex (\<lambda>b. b_id b = p_book_id \<and> is_active b = Some True) (books s)
      then Inr ([(''success'', JBool False), (''error'', JText ''BOOK_NOT_FOUND'')], s)
      else if list_ex (\<lambda>p. up_user_id p = Some p_user_id \<and> up_book_id p = Some p_book_id)
                (user_purchases s)
      then Inr ([(''success'', JBool False), (''error'', JText ''BOOK_ALREADY_PURCHASED'')], s)
      else
        (case varchar 50 (generate_order_number today rnd) of
           Inl e \<Rightarrow> Inl e
         | Inr v_order_number \<Rightarrow>
        (case decimal_12_2 p_amount of
           Inl e \<Rightarrow> Inl e
         | Inr v_amount \<Rightarrow>
        (case varchar 50 p_payment_method of
           Inl e \<Rightarrow> Inl e
         | Inr v_payment_method \<Rightarrow>
        (case varchar_opt 255 p_idempotency_key of
           Inl e \<Rightarrow> Inl e
         | Inr v_idempotency_key \<Rightarrow>
        (case insert_orders
                (new_order now v_order_id v_order_number p_user_id p_book_id v_amount
                   v_payment_method v_idempotency_key) s of
           Inl e \<Rightarrow> Inl e
         | Inr s' \<Rightarrow>
             Inr ([(''success'', JBool True), (''order_id'', JUuid v_order_id),
                   (''order_number'', JText v_order_number)], s')))))))"

definition create_order_with_idempotency ::
  "timestamp \<Rightarrow> uuid \<Rightarrow> string \<Rightarrow> nat \<Rightarrow> uuid \<Rightarrow> uuid \<Rightarrow> numeric \<Rightarrow> string \<Rightarrow> string option
     \<Rightarrow> db \<Rightarrow> json_object \<times> db" where
  "create_order_with_idempotency now v_order_id today rnd p_user_id p_book_id p_amount
     p_payment_method p_idempotency_key s =
     (case create_order_body now v_order_id today rnd p_user_id p_book_id p_amount
             p_payment_method p_idempotency_key s of
        Inl (unique_violation c) \<Rightarrow>
          ([(''success'', JBool False), (''error'', JText ''DUPLICATE_ORDER'')], s)
      | Inl e \<Rightarrow> ([(''success'', JBool False), (''error'', SQLERRM e)], s)
      | Inr r \<Rightarrow> r)"

section \<open>Webhook deduplication (migration 010)\<close>

text \<open>
  \<^verbatim>\<open>process_webhook_event(p_transaction_id, p_order_id, p_event_type, p_payload)\<close>.
  \<open>SELECT id INTO v_existing_event\<close> yields the primary key of a matching row, which is
  never NULL, so \<open>v_existing_event IS NOT NULL\<close> holds exactly when a row matched.  The
  function has no exception handler: an error of its insert would leave it.
\<close>

definition insert_webhook_events :: "webhook_events_row \<Rightarrow> db \<Rightarrow> sql_error + db" where
  "insert_webhook_events r s =
     (if list_ex (\<lambda>e. we_transaction_id e = we_transaction_id r \<and>
                       we_event_type e = we_event_type r) (webhook_events s)
      then Inl (unique_violation ''webhook_events_transaction_id_event_type_key'')
      else Inr (s\<lparr>webhook_events := webhook_events s @ [r]\<rparr>))"

definition process_webhook_event ::
  "timestamp \<Rightarrow> string \<Rightarrow> string \<Rightarrow> string \<Rightarrow> jsonb \<Rightarrow> db \<Rightarrow> sql_error + (json_object \<times> db)"
  where
  "process_webhook_event now p_transaction_id p_order_id p_event_type p_payload s =
     (case find (\<lambda>e. we_transaction_id e = p_transaction_id \<and> we_event_type e = p_event_type)
             (webhook_events s) of
        Some v_existing_event \<Rightarrow>
          Inr ([(''success'', JBool True), (''message'', JText ''Event already processed''),
                (''duplicate'', JBool True)], s)
      | None \<Rightarrow>
          (case insert_webhook_events
                  \<lparr>we_transaction_id = p_transaction_id, we_order_id = p_order_id,
                   we_event_type = p_event_type, payload = Some p_payload,
                   we_created_at = Some now\<rparr> s of
             Inl e \<Rightarrow> Inl e
           | Inr s' \<Rightarrow>
               Inr ([(''success'', JBool True),
                     (''message'', JText ''Event processed successfully''),
                     (''duplicate'', JBool False)], s')))"

section \<open>Expiry sweep (migration 007)\<close>

text \<open>
  \<^verbatim>\<open>cleanup_expired_orders()\<close>: one \<open>UPDATE\<close> whose \<open>WHERE\<close> clause is
  \<open>status = 'pending' AND expires_at < NOW()\<close> (not true for a NULL \<open>expires_at\<close>),
  \<open>ROW_COUNT\<close> of that update, and an audit row.
\<close>

definition is_stale :: "timestamp \<Rightarrow> orders_row \<Rightarrow> bool" where
  "is_stale now r =
     (status r = Pending \<and> (case expires_at r of None \<Rightarrow> False | Some e \<Rightarrow> e < now))"

definition expire :: "timestamp \<Rightarrow> orders_row \<Rightarrow> orders_row" where
  "expire now r = (if is_stale now r then r\<lparr>status := Expired, updated_at := now\<rparr> else r)"

definition cleanup_expired_orders :: "timestamp \<Rightarrow> db \<Rightarrow> int \<times> db" where
  "cleanup_expired_orders now s =
     (let expired_count = int (length (filter (is_stale now) (orders s)))
      in (expired_count,
          s\<lparr>orders := map (expire now) (orders s),
            audit_logs := audit_logs s @
              [\<lparr>al_user_id = None, action = ''EXPIRED_ORDERS_CLEANUP'',
                resource_type = Some ''system'', resource_id = None,
                details = Some [(''expired_count'', JNum expired_count)],
                al_created_at = Some now\<rparr>]\<rparr>))"

section \<open>Sequences of calls\<close>

text \<open>
  The four functions are called one at a time, each in its own transaction
  (transactions that overlap in time are outside the embedding).  A call that raises
  aborts its transaction and leaves the database as it was.
\<close>

datatype db_call =
  CreateOrder timestamp uuid string nat uuid uuid numeric string "string option"
| CompletePayment timestamp string string jsonb
| ProcessWebhook timestamp string string string jsonb
| CleanupExpired timestamp

fun apply_call :: "db_call \<Rightarrow> db \<Rightarrow> db" where
  "apply_call (CreateOrder now v_order_id today rnd u b a pm k) s =
     snd (create_order_with_idempotency now v_order_id today rnd u b a pm k s)"
| "apply_call (CompletePayment now n t w) s = snd (complete_payment_atomic now n t w s)"
| "apply_call (ProcessWebhook now t n e p) s =
     (case process_webhook_event now t n e p s of Inl err \<Rightarrow> s | Inr (r, s') \<Rightarrow> s')"
| "apply_call (CleanupExpired now) s = snd (cleanup_expired_orders now s)"

text \<open>\<open>UNIQUE(idempotency_key)\<close> of orders: no two rows share a key that is not NULL.\<close>

fun unique_idempotency_key :: "orders_row list \<Rightarrow> bool" where
  "unique_idempotency_key [] = True"
| "unique_idempotency_key (r # rs) =
     (\<not> (idempotency_key r \<noteq> None \<and>
         list_ex (\<lambda>x. idempotency_key x = idempotency_key r) rs)
      \<and> unique_idempotency_key rs)"

section \<open>The client-side payment monitor\<close>

text \<open>
  \<open>PaymentManager\<close> (\<^verbatim>\<open>frontend/js/payment.js\<close>, in the sources as
  \<^verbatim>\<open>src/unnamed/part_001\<close>) runs in the browser, single-threaded, and does all its waiting
  through \<open>setInterval\<close> and \<open>setTimeout\<close>.  The embedding keeps the fields of the object
  that the monitoring methods use, together with the part of the browser they act on:
  a clock in milliseconds, the table of armed timers, the page location, and two logs
  that the code does not have (the timers fired, and the times at which \<open>getOrder\<close> was
  requested).

  A timer's callback is one of the four arrow functions of \<open>startStatusPolling\<close> and
  \<open>startPaymentMonitoring\<close>:
  \<^item> \<open>StatusPoll\<close>: \<^verbatim>\<open>async () => { try { await this.checkPaymentStatus(); } catch ... }\<close>,
    every 5000 ms;
  \<^item> \<open>AutoStop\<close>: \<^verbatim>\<open>() => { this.stopStatusPolling(); }\<close>, once after \<open>30 * 60 * 1000\<close> ms;
  \<^item> \<open>WindowCheck\<close>: the body of the \<open>windowCheckInterval\<close> callback, every 1000 ms; it
    refers to its own timer id;
  \<^item> \<open>FinalCheck\<close>: \<^verbatim>\<open>() => { this.checkPaymentStatus(); }\<close>, once after 2000 ms.

  What the world does is the \<open>environment\<close>: whether the user has closed the payment
  window by a given time, what \<open>api.getOrder\<close> answers at a given time (\<open>None\<close> when the
  request throws or the answer has no \<open>success\<close> and \<open>data\<close>), and the user's answer to
  \<open>confirm\<close>.  The answer of \<open>getOrder\<close> is handled at the instant of the request, before
  any other timer fires.  The registered callbacks of \<open>triggerPaymentCallbacks\<close> only
  observe: the model records the event types passed to them.
\<close>

datatype timer_callback = StatusPoll | AutoStop | WindowCheck | FinalCheck

type_synonym millis = int

record timer =
  timer_id :: nat
  due :: millis
  repeat :: "millis option"
  callback :: timer_callback

record order_view =
  ov_id :: uuid
  ov_status :: order_status

record environment =
  window_closed_by_user :: "millis \<Rightarrow> bool"
  getOrder :: "millis \<Rightarrow> order_status option"
  confirm :: "millis \<Rightarrow> bool"

record monitor =
  currentOrder :: "order_view option"
  paymentWindow :: "bool option"
  statusCheckInterval :: "nat option"
  emitted :: "string list"
  location_href :: "string option"
  clock :: millis
  timers :: "timer list"
  next_timer_id :: nat
  history :: "(millis \<times> timer_callback) list"
  requests :: "millis list"

subsection \<open>Browser primitives\<close>

text \<open>Timer ids are positive and never reused, so a stored id is truthy in JavaScript.\<close>

definition setInterval :: "timer_callback \<Rightarrow> millis \<Rightarrow> monitor \<Rightarrow> nat \<times> monitor" where
  "setInterval cb d b =
     (next_timer_id b,
      b\<lparr>timers := timers b @
           [\<lparr>timer_id = next_timer_id b, due = clock b + d, repeat = Some d, callback = cb\<rparr>],
        next_timer_id := Suc (next_timer_id b)\<rparr>)"

definition setTimeout :: "timer_callback \<Rightarrow> millis \<Rightarrow> monitor \<Rightarrow> nat \<times> monitor" where
  "setTimeout cb d b =
     (next_timer_id b,
      b\<lparr>timers := timers b @
           [\<lparr>timer_id = next_timer_id b, due = clock b + d, repeat = None, callback = cb\<rparr>],
        next_timer_id := Suc (next_timer_id b)\<rparr>)"

definition clearInterval :: "nat \<Rightarrow> monitor \<Rightarrow> monitor" where
  "clearInterval i b = b\<lparr>timers := filter (\<lambda>t. timer_id t \<noteq> i) (timers b)\<rparr>"

text \<open>\<open>this.paymentWindow && this.paymentWindow.closed\<close>: the window exists and was closed,
  by the user or by \<open>close()\<close>.\<close>

definition window_is_closed :: "environment \<Rightarrow> monitor \<Rightarrow> bool" where
  "window_is_closed env b =
     (case paymentWindow b of
        None \<Rightarrow> False
      | Some closed_by_script \<Rightarrow> closed_by_script \<or> window_closed_by_user env (clock b))"

text \<open>\<open>if (this.paymentWindow && !this.paymentWindow.closed) this.paymentWindow.close()\<close>.\<close>

definition close_window_if_open :: "environment \<Rightarrow> monitor \<Rightarrow> monitor" where
  "close_window_if_open env b =
     (if paymentWindow b \<noteq> None \<and> \<not> window_is_closed env b
      then b\<lparr>paymentWindow := Some True\<rparr> else b)"

subsection \<open>Methods of \<open>PaymentManager\<close>\<close>

definition triggerPaymentCallbacks :: "string \<Rightarrow> monitor \<Rightarrow> monitor" where
  "triggerPaymentCallbacks eventType b = b\<lparr>emitted := emitted b @ [eventType]\<rparr>"

definition stopStatusPolling :: "monitor \<Rightarrow> monitor" where
  "stopStatusPolling b =
     (case statusCheckInterval b of
        None \<Rightarrow> b
      | Some i \<Rightarrow> (clearInterval i b)\<lparr>statusCheckInterval := None\<rparr>)"

definition startStatusPolling :: "monitor \<Rightarrow> monitor" where
  "startStatusPolling b =
     (let b1 = (case statusCheckInterval b of None \<Rightarrow> b | Some i \<Rightarrow> clearInterval i b);
          (i, b2) = setInterval StatusPoll 5000 b1;
          b3 = b2\<lparr>statusCheckInterval := Some i\<rparr>
      in snd (setTimeout AutoStop (30 * 60 * 1000) b3))"

definition startPaymentMonitoring :: "monitor \<Rightarrow> monitor" where
  "startPaymentMonitoring b = snd (setInterval WindowCheck 1000 (startStatusPolling b))"

definition handlePaymentSuccess :: "environment \<Rightarrow> monitor \<Rightarrow> monitor" where
  "handlePaymentSuccess env b =
     (let b1 = stopStatusPolling b;
          b2 = close_window_if_open env b1;
          b3 = triggerPaymentCallbacks ''payment_success'' b2;
          b4 = (if confirm env (clock b) then b3\<lparr>location_href := Some ''/library.html''\<rparr>
                else b3)
      in b4\<lparr>currentOrder := None\<rparr>)"

definition handlePaymentFailure :: "environment \<Rightarrow> monitor \<Rightarrow> monitor" where
  "handlePaymentFailure env b =
     (let b1 = stopStatusPolling b;
          b2 = close_window_if_open env b1;
          b3 = triggerPaymentCallbacks ''payment_failed'' b2
      in b3\<lparr>currentOrder := None\<rparr>)"

definition handlePaymentPending :: "monitor \<Rightarrow> monitor" where
  "handlePaymentPending b = triggerPaymentCallbacks ''payment_pending'' b"

text \<open>
  \<open>checkPaymentStatus\<close>: without a current order it returns at once; otherwise it requests
  the order and, when the status in the answer differs from the one it holds, stores the
  answer, dispatches on the new status (\<open>refunded\<close> falls to the \<open>default\<close> branch, which
  only warns) and emits \<open>status_changed\<close>.
\<close>

definition checkPaymentStatus :: "environment \<Rightarrow> monitor \<Rightarrow> monitor" where
  "checkPaymentStatus env b =
     (case currentOrder b of
        None \<Rightarrow> b
      | Some cur \<Rightarrow>
          (let b1 = b\<lparr>requests := requests b @ [clock b]\<rparr> in
           case getOrder env (clock b) of
             None \<Rightarrow> b1
           | Some orderStatus \<Rightarrow>
               if orderStatus \<noteq> ov_status cur
               then
                 (let b2 = b1\<lparr>currentOrder := Some (cur\<lparr>ov_status := orderStatus\<rparr>)\<rparr>;
                      b3 = (case orderStatus of
                              Paid \<Rightarrow> handlePaymentSuccess env b2
                            | Failed \<Rightarrow> handlePaymentFailure env b2
                            | Cancelled \<Rightarrow> handlePaymentFailure env b2
                            | Expired \<Rightarrow> handlePaymentFailure env b2
                            | Pending \<Rightarrow> handlePaymentPending b2
                            | Refunded \<Rightarrow> b2)
                  in triggerPaymentCallbacks ''status_changed'' b3)
               else b1))"

text \<open>The callback of \<open>windowCheckInterval\<close>; \<open>own\<close> is the id of the interval itself.\<close>

definition window_check :: "environment \<Rightarrow> nat \<Rightarrow> monitor \<Rightarrow> monitor" where
  "window_check env own b =
     (if window_is_closed env b
      then
        (let b1 = clearInterval own b;
             b2 = triggerPaymentCallbacks ''payment_window_closed'' b1
         in snd (setTimeout FinalCheck 2000 b2))
      else b)"

text \<open>\<open>getCurrentPaymentStatus\<close>, reduced to its fields \<open>status\<close> and \<open>isPolling\<close>.\<close>

definition getCurrentPaymentStatus :: "monitor \<Rightarrow> (order_status \<times> bool) option" where
  "getCurrentPaymentStatus b =
     (case currentOrder b of
        None \<Rightarrow> None
      | Some cur \<Rightarrow> Some (ov_status cur, statusCheckInterval b \<noteq> None))"

subsection \<open>The timer loop\<close>

text \<open>
  \<open>fire env i b\<close> lets timer \<open>i\<close> fire.  That is possible when the timer is armed, the page
  has not navigated away, and no armed timer is due earlier; among timers due at the
  same instant any may go first.  The clock moves to the timer's due time, an interval
  is armed again one period later and a timeout is removed, and the callback runs.
  \<open>run\<close> fires the timers of a schedule in turn.
\<close>

definition run_callback :: "environment \<Rightarrow> timer \<Rightarrow> monitor \<Rightarrow> monitor" where
  "run_callback env t b =
     (case callback t of
        StatusPoll \<Rightarrow> checkPaymentStatus env b
      | AutoStop \<Rightarrow> stopStatusPolling b
      | WindowCheck \<Rightarrow> window_check env (timer_id t) b
      | FinalCheck \<Rightarrow> checkPaymentStatus env b)"

definition rearm :: "timer \<Rightarrow> timer list \<Rightarrow> timer list" where
  "rearm t ts =
     (case repeat t of
        Some d \<Rightarrow> map (\<lambda>u. if timer_id u = timer_id t then u\<lparr>due := due u + d\<rparr> else u) ts
      | None \<Rightarrow> filter (\<lambda>u. timer_id u \<noteq> timer_id t) ts)"

definition fire :: "environment \<Rightarrow> nat \<Rightarrow> monitor \<Rightarrow> monitor option" where
  "fire env i b =
     (case find (\<lambda>t. timer_id t = i) (timers b) of
        None \<Rightarrow> None
      | Some t \<Rightarrow>
          if location_href b \<noteq> None \<or> \<not> list_all (\<lambda>u. due t \<le> due u) (timers b)
          then None
          else Some (run_callback env t
                       (b\<lparr>clock := due t, timers := rearm t (timers b),
                          history := history b @ [(due t, callback t)]\<rparr>)))"

fun run :: "environment \<Rightarrow> nat list \<Rightarrow> monitor \<Rightarrow> monitor option" where
  "run env [] b = Some b"
| "run env (i # is) b = (case fire env i b of None \<Rightarrow> None | Some b' \<Rightarrow> run env is b')"

subsection \<open>The state of a manager between two callbacks\<close>

text \<open>
  The browser hands out fresh timer ids and fires no timer before it is due, and the
  manager keeps \<open>statusCheckInterval\<close> pointing at the polling interval it armed last.
  \<open>wf_manager\<close> collects these facts: the armed timers have distinct ids below the next
  id to be handed out, none is overdue, no period is negative, and a polling timer is
  armed only under the id held in \<open>statusCheckInterval\<close>, with the period of 5000 ms.
  The constructor establishes them (no timer is armed) and \<open>startStatusPolling\<close>,
  \<open>startPaymentMonitoring\<close> and every firing of a timer keep them, so they hold of a
  manager that has been used for earlier payments as well; nothing is assumed about
  the timers such a manager still has armed.
\<close>

definition wf_timer :: "monitor \<Rightarrow> timer \<Rightarrow> bool" where
  "wf_timer b t =
     (timer_id t < next_timer_id b \<and> clock b \<le> due t \<and>
      (case repeat t of None \<Rightarrow> True | Some d \<Rightarrow> 0 \<le> d) \<and>
      (if callback t = StatusPoll
       then statusCheckInterval b = Some (timer_id t) \<and> repeat t = Some 5000
       else True))"

definition wf_manager :: "monitor \<Rightarrow> bool" where
  "wf_manager b = (distinct (map timer_id (timers b)) \<and> list_all (wf_timer b) (timers b))"

text \<open>\<open>new PaymentManager(api, auth)\<close> in a page whose clock shows \<open>now\<close> and that has handed
  out the timer ids below \<open>n\<close>.\<close>

definition new_PaymentManager :: "millis \<Rightarrow> nat \<Rightarrow> monitor" where
  "new_PaymentManager now n =
     \<lparr>currentOrder = None, paymentWindow = None, statusCheckInterval = None, emitted = [],
      location_href = None, clock = now, timers = [], next_timer_id = n, history = [],
      requests = []\<rparr>"




subsection \<open>Invariants of a polling period\<close>

text \<open>
  The facts that every state satisfies after \<open>startStatusPolling\<close> ran at time \<open>T0\<close> and
  took the timer ids \<open>n0\<close> (the polling interval) and \<open>n0 + 1\<close> (its timeout), once the
  polling interval has fired \<open>m\<close> times: no armed timer is overdue and no period is
  negative; a polling timer is the one \<open>startStatusPolling\<close> armed, moved \<open>m\<close> periods on;
  the timer with id \<open>n0 + 1\<close> is the timeout it armed; every other timer, whether armed
  before or after, has another id; \<open>statusCheckInterval\<close> holds the polling timer's id
  exactly while it is armed; and the polling timer is never armed without its timeout.
\<close>

definition timer_ok :: "millis \<Rightarrow> nat \<Rightarrow> nat \<Rightarrow> millis \<Rightarrow> timer \<Rightarrow> bool" where
  "timer_ok T0 n0 m now t =
     (now \<le> due t \<and>
      (case repeat t of None \<Rightarrow> True | Some d \<Rightarrow> 0 \<le> d) \<and>
      (if callback t = StatusPoll
       then t = \<lparr>timer_id = n0, due = T0 + 5000 * (int m + 1), repeat = Some 5000,
                 callback = StatusPoll\<rparr>
       else timer_id t \<noteq> n0 \<and>
            (if timer_id t = Suc n0
             then t = \<lparr>timer_id = Suc n0, due = T0 + 30 * 60 * 1000, repeat = None,
                       callback = AutoStop\<rparr>
             else True)))"

definition polling :: "monitor \<Rightarrow> bool" where
  "polling b = list_ex (\<lambda>t. callback t = StatusPoll) (timers b)"

definition stop_armed :: "nat \<Rightarrow> monitor \<Rightarrow> bool" where
  "stop_armed n0 b = list_ex (\<lambda>t. timer_id t = Suc n0) (timers b)"

definition poll_inv :: "millis \<Rightarrow> nat \<Rightarrow> nat \<Rightarrow> monitor \<Rightarrow> bool" where
  "poll_inv T0 n0 m b =
     (list_all (timer_ok T0 n0 m (clock b)) (timers b) \<and>
      n0 + 2 \<le> next_timer_id b \<and>
      statusCheckInterval b = (if polling b then Some n0 else None) \<and>
      (if polling b then stop_armed n0 b else True) \<and>
      m \<le> 360)"

text \<open>The firings of the polling interval recorded since the period began are the
  first \<open>m\<close> multiples of five seconds after \<open>T0\<close>.\<close>

definition poll_times :: "millis \<Rightarrow> nat \<Rightarrow> (millis \<times> timer_callback) list \<Rightarrow> bool" where
  "poll_times T0 m h =
     (map fst (filter (\<lambda>e. snd e = StatusPoll) h) = map (\<lambda>k. T0 + 5000 * int k) [1..<Suc m])"

section \<open>Example databases\<close>

text \<open>A shop with one user and one active book; the user creates two orders of 50000.00
  for the book before either is paid, and the first one is then settled.\<close>

definition shop :: db where
  "shop = \<lparr>users = [7], books = [\<lparr>b_id = 3, is_active = Some True\<rparr>], orders = [],
     user_purchases = [], payment_logs = [], audit_logs = [], webhook_events = []\<rparr>"

definition shop_one_order :: db where
  "shop_one_order =
     snd (create_order_with_idempotency 0 11 ''20250101'' 1 7 3 (5000000, 2) ''qris'' (Some ''abc'')
            shop)"

definition shop_two_orders :: db where
  "shop_two_orders =
     snd (create_order_with_idempotency 60 12 ''20250101'' 2 7 3 (5000000, 2) ''qris'' (Some ''xyz'')
            shop_one_order)"

definition shop_first_paid :: db where
  "shop_first_paid =
     snd (complete_payment_atomic 120 ''ORD-20250101-000001'' ''tx-1'' ''{}'' shop_two_orders)"

text \<open>A payment manager that holds a pending order and has just opened the payment
  window, at time 0 with no timer armed; the user closes the window half a second later
  and the order stays pending at the server.\<close>

definition window_just_opened :: monitor where
  "window_just_opened =
     \<lparr>currentOrder = Some \<lparr>ov_id = 11, ov_status = Pending\<rparr>, paymentWindow = Some False,
      statusCheckInterval = None, emitted = [''order_created''], location_href = None,
      clock = 0, timers = [], next_timer_id = 1, history = [], requests = []\<rparr>"

definition closes_early_stays_pending :: environment where
  "closes_early_stays_pending =
     \<lparr>window_closed_by_user = (\<lambda>t. 500 \<le> t), getOrder = (\<lambda>t. Some Pending),
      confirm = (\<lambda>t. False)\<rparr>"

text \<open>The state of that manager \<open>k\<close> polls after \<open>startStatusPolling\<close>, while the order stays
  pending.\<close>

definition polled :: "nat \<Rightarrow> monitor" where
  "polled k =
     \<lparr>currentOrder = Some \<lparr>ov_id = 11, ov_status = Pending\<rparr>, paymentWindow = Some False,
      statusCheckInterval = Some 1, emitted = [''order_created''], location_href = None,
      clock = 5000 * int k,
      timers = [\<lparr>timer_id = 1, due = 5000 * (int k + 1), repeat = Some 5000,
                 callback = StatusPoll\<rparr>,
                \<lparr>timer_id = 2, due = 1800000, repeat = None, callback = AutoStop\<rparr>],
      next_timer_id = 3,
      history = map (\<lambda>j. (5000 * int j, StatusPoll)) [1..<Suc k],
      requests = map (\<lambda>j. 5000 * int j) [1..<Suc k]\<rparr>"

text \<open>The checkout of the shopping cart (\<open>handleCheckout\<close> in \<^verbatim>\<open>app.js\<close>) opens the payment
  window through \<open>openPaymentWindow\<close> without \<open>initiatePayment\<close>: the manager holds no
  current order when the monitoring starts.\<close>

definition cart_checkout_window_opened :: monitor where
  "cart_checkout_window_opened =
     \<lparr>currentOrder = None, paymentWindow = Some False, statusCheckInterval = None,
      emitted = [], location_href = None, clock = 0, timers = [], next_timer_id = 1,
      history = [], requests = []\<rparr>"

text \<open>
  The application keeps one \<open>PaymentManager\<close> for all purchases.  In the first purchase
  the order is paid at the first poll, the window is closed by the manager and the
  watcher and its final check run; the 30-minute timeout of that polling period (id 2)
  stays armed.  \<open>second_purchase\<close> is the same manager at 1798000 ms, when
  \<open>initiatePayment\<close> has stored the next order and \<open>openPaymentWindow\<close> has opened the
  window again.
\<close>

definition paid_at_once :: environment where
  "paid_at_once =
     \<lparr>window_closed_by_user = (\<lambda>t. False), getOrder = (\<lambda>t. Some Paid),
      confirm = (\<lambda>t. False)\<rparr>"

definition second_purchase :: monitor where
  "second_purchase =
     \<lparr>currentOrder = Some \<lparr>ov_id = 12, ov_status = Pending\<rparr>, paymentWindow = Some False,
      statusCheckInterval = None,
      emitted = [''order_created'', ''payment_success'', ''status_changed'',
                 ''payment_window_closed'', ''order_created''],
      location_href = None, clock = 1798000,
      timers = [\<lparr>timer_id = 2, due = 1800000, repeat = None, callback = AutoStop\<rparr>],
      next_timer_id = 5,
      history = [(1000, WindowCheck), (2000, WindowCheck), (3000, WindowCheck),
                 (4000, WindowCheck), (5000, StatusPoll), (5000, WindowCheck),
                 (7000, FinalCheck)],
      requests = [5000]\<rparr>"

section \<open>Properties of payment completion\<close>

subsection \<open>The branches of \<open>complete_payment_atomic\<close>\<close>


lemma find_mark_paid_other:
  "find (\<lambda>r. order_number r = n) xs = Some v \<Longrightarrow> o_id v \<noteq> i \<Longrightarrow>
   find (\<lambda>r. order_number r = n) (map (mark_paid now i) xs) = Some v"
  by (induction xs) (auto simp: mark_paid_def split: if_splits)




lemma select_order_other:
  "select_order n s = Some v \<Longrightarrow> o_id v \<noteq> i \<Longrightarrow>
   orders s' = map (mark_paid now i) (orders s) \<Longrightarrow> select_order n s' = Some v"
  by (simp add: select_order_def find_mark_paid_other)


lemmas cpa_defs = complete_payment_atomic_def complete_payment_body_def select_order_def
  insert_user_purchases_def insert_payment_logs_def insert_audit_logs_def

lemma cpa_not_found:
  "select_order n s = None \<Longrightarrow>
   complete_payment_atomic now n t w s =
     ([(''success'', JBool False), (''error'', JText ''ORDER_NOT_FOUND'')], s)"
  by (simp add: cpa_defs)

lemma cpa_already:
  "select_order n s = Some v \<Longrightarrow>
   list_ex (\<lambda>p. up_order_id p = Some (o_id v)) (user_purchases s) \<Longrightarrow>
   complete_payment_atomic now n t w s =
     ([(''success'', JBool True), (''error'', JText ''ALREADY_PROCESSED''),
       (''message'', JText ''Payment sudah diproses sebelumnya'')], s)"
  by (simp add: cpa_defs)

lemma cpa_not_pending:
  "select_order n s = Some v \<Longrightarrow>
   \<not> list_ex (\<lambda>p. up_order_id p = Some (o_id v)) (user_purchases s) \<Longrightarrow>
   status v \<noteq> Pending \<Longrightarrow>
   complete_payment_atomic now n t w s =
     ([(''success'', JBool False), (''error'', JText ''ORDER_NOT_PENDING''),
       (''current_status'', JText (status_text (status v)))], s)"
  by (simp add: cpa_defs)

lemma cpa_conflict:
  "select_order n s = Some v \<Longrightarrow>
   \<not> list_ex (\<lambda>p. up_order_id p = Some (o_id v)) (user_purchases s) \<Longrightarrow>
   status v = Pending \<Longrightarrow>
   list_ex (same_user_book (user_id v) (book_id v)) (user_purchases s) \<Longrightarrow>
   complete_payment_atomic now n t w s =
     ([(''success'', JBool False),
       (''error'', SQLERRM (unique_violation ''user_purchases_user_id_book_id_key''))], s)"
  by (simp add: cpa_defs purchase_of_def)

lemma cpa_settled:
  "select_order n s = Some v \<Longrightarrow>
   \<not> list_ex (\<lambda>p. up_order_id p = Some (o_id v)) (user_purchases s) \<Longrightarrow>
   status v = Pending \<Longrightarrow>
   \<not> list_ex (same_user_book (user_id v) (book_id v)) (user_purchases s) \<Longrightarrow>
   complete_payment_atomic now n t w s =
     ([(''success'', JBool True), (''order_id'', JUuid (o_id v))],
      s\<lparr>orders := map (mark_paid now (o_id v)) (orders s),
        user_purchases := user_purchases s @ [purchase_of now v],
        payment_logs := payment_logs s @ [payment_log_of now v t w],
        audit_logs := audit_logs s @ [payment_audit_of now v t]\<rparr>)"
  by (simp add: cpa_defs purchase_of_def)




subsection \<open>One purchase per user and book\<close>

lemma unique_user_book_snoc:
  "unique_user_book ps \<Longrightarrow> \<not> list_ex (same_user_book (up_user_id r) (up_book_id r)) ps \<Longrightarrow>
   unique_user_book (ps @ [r])"
  by (induction ps) (auto simp: same_user_book_def list_ex_iff)

lemma unique_user_book_count:
  "unique_user_book ps \<Longrightarrow>
   length (filter (\<lambda>p. up_user_id p = Some u \<and> up_book_id p = Some b) ps) \<le> 1"
proof (induction ps)
  case Nil
  then show ?case by simp
next
  case (Cons p ps)
  show ?case
  proof (cases "up_user_id p = Some u \<and> up_book_id p = Some b")
    case True
    with Cons.prems have "filter (\<lambda>p. up_user_id p = Some u \<and> up_book_id p = Some b) ps = []"
      by (auto simp: same_user_book_def list_ex_iff filter_empty_conv)
    with True show ?thesis by simp
  next
    case False
    with Cons show ?thesis by auto
  qed
qed

lemma cpa_unique_user_book:
  assumes "unique_user_book (user_purchases s)"
  shows "unique_user_book (user_purchases (snd (complete_payment_atomic now n t w s)))"
proof (cases "complete_payment_body now n t w s")
  case (Inl e)
  with assms show ?thesis by (simp add: complete_payment_atomic_def)
next
  case (Inr r)
  with assms show ?thesis
    by (auto simp: cpa_defs purchase_of_def unique_user_book_snoc
          split: option.splits if_splits)
qed

lemma cpa_holder_noop:
  assumes v: "select_order n s = Some v"
    and ub: "user_id v = Some u" "book_id v = Some b"
    and held: "list_ex (\<lambda>p. up_user_id p = Some u \<and> up_book_id p = Some b) (user_purchases s)"
  shows "snd (complete_payment_atomic now n t w s) = s
       \<and> (map_of (fst (complete_payment_atomic now n t w s)) ''success'' = Some (JBool False)
          \<or> map_of (fst (complete_payment_atomic now n t w s)) ''error'' =
              Some (JText ''ALREADY_PROCESSED''))"
proof -
  from held ub have c: "list_ex (same_user_book (user_id v) (book_id v)) (user_purchases s)"
    by (auto simp: same_user_book_def list_ex_iff)
  show ?thesis
  proof (cases "list_ex (\<lambda>p. up_order_id p = Some (o_id v)) (user_purchases s)")
    case True
    from cpa_already [OF v True] show ?thesis by simp
  next
    case False
    show ?thesis
    proof (cases "status v = Pending")
      case True
      from cpa_conflict [OF v False True c] show ?thesis by simp
    next
      case np: False
      from cpa_not_pending [OF v False np] show ?thesis by simp
    qed
  qed
qed

lemma insert_orders_user_purchases:
  "insert_orders r s = Inr s' \<Longrightarrow> user_purchases s' = user_purchases s"
  by (auto simp: insert_orders_def split: if_splits)

lemma create_order_body_user_purchases:
  "create_order_body now i today rnd u b a pm k s = Inr (r, s') \<Longrightarrow>
   user_purchases s' = user_purchases s"
  by (auto simp: create_order_body_def dest: insert_orders_user_purchases
        split: if_splits sum.splits)

lemma create_user_purchases:
  "user_purchases (snd (create_order_with_idempotency now i today rnd u b a pm k s)) =
   user_purchases s"
proof (cases "create_order_body now i today rnd u b a pm k s")
  case (Inl e)
  then show ?thesis
    by (cases e) (simp_all add: create_order_with_idempotency_def)
next
  case (Inr p)
  with create_order_body_user_purchases [of now i today rnd u b a pm k s "fst p" "snd p"]
  show ?thesis by (simp add: create_order_with_idempotency_def)
qed

lemma webhook_user_purchases:
  "user_purchases (case process_webhook_event now t n e p s of Inl err \<Rightarrow> s | Inr (r, s') \<Rightarrow> s') =
   user_purchases s"
  by (auto simp: process_webhook_event_def insert_webhook_events_def
        split: sum.splits option.splits if_splits)

lemma cleanup_user_purchases:
  "user_purchases (snd (cleanup_expired_orders now s)) = user_purchases s"
  by (simp add: cleanup_expired_orders_def Let_def)

lemma apply_call_unique_user_book:
  "unique_user_book (user_purchases s) \<Longrightarrow> unique_user_book (user_purchases (apply_call c s))"
  by (cases c)
     (simp_all add: create_user_purchases webhook_user_purchases cleanup_user_purchases
        cpa_unique_user_book)

lemma fold_apply_call_unique_user_book:
  "unique_user_book (user_purchases s) \<Longrightarrow>
   unique_user_book (user_purchases (fold apply_call calls s))"
  by (induction calls arbitrary: s) (simp_all add: apply_call_unique_user_book)

text \<open>
  C2.  Start from a user_purchases table that satisfies its \<open>UNIQUE(user_id, book_id)\<close>
  constraint.  After any sequence of calls of the four functions, every user and book
  have at most one user_purchases row.  In particular, when two distinct orders of the
  same user and book are settled one after the other and the first settlement succeeds,
  the second one leaves the database as it is (no second row) and is either a failure or
  the \<open>ALREADY_PROCESSED\<close> no-op.
\<close>

theorem no_double_purchase:
  assumes uniq: "unique_user_book (user_purchases s)"
  shows "length (filter (\<lambda>p. up_user_id p = Some u \<and> up_book_id p = Some b)
                  (user_purchases (fold apply_call calls s))) \<le> 1
       \<and> (\<forall>v1 v2. select_order n1 s = Some v1 \<and> select_order n2 s = Some v2
              \<and> o_id v1 \<noteq> o_id v2
              \<and> user_id v1 = Some u \<and> book_id v1 = Some b
              \<and> user_id v2 = Some u \<and> book_id v2 = Some b
              \<and> fst (complete_payment_atomic now1 n1 t1 w1 s) =
                  [(''success'', JBool True), (''order_id'', JUuid (o_id v1))]
            \<longrightarrow> snd (complete_payment_atomic now2 n2 t2 w2
                       (snd (complete_payment_atomic now1 n1 t1 w1 s))) =
                  snd (complete_payment_atomic now1 n1 t1 w1 s)
              \<and> (map_of (fst (complete_payment_atomic now2 n2 t2 w2
                       (snd (complete_payment_atomic now1 n1 t1 w1 s)))) ''success'' =
                    Some (JBool False)
                 \<or> map_of (fst (complete_payment_atomic now2 n2 t2 w2
                       (snd (complete_payment_atomic now1 n1 t1 w1 s)))) ''error'' =
                    Some (JText ''ALREADY_PROCESSED'')))"
proof -
  let ?s1 = "snd (complete_payment_atomic now1 n1 t1 w1 s)"
  have "snd (complete_payment_atomic now2 n2 t2 w2 ?s1) = ?s1
      \<and> (map_of (fst (complete_payment_atomic now2 n2 t2 w2 ?s1)) ''success'' = Some (JBool False)
         \<or> map_of (fst (complete_payment_atomic now2 n2 t2 w2 ?s1)) ''error'' =
              Some (JText ''ALREADY_PROCESSED''))"
    if v1: "select_order n1 s = Some v1"
      and v2: "select_order n2 s = Some v2"
      and ne: "o_id v1 \<noteq> o_id v2"
      and ub1: "user_id v1 = Some u" "book_id v1 = Some b"
      and ub2: "user_id v2 = Some u" "book_id v2 = Some b"
      and r1: "fst (complete_payment_atomic now1 n1 t1 w1 s) =
                  [(''success'', JBool True), (''order_id'', JUuid (o_id v1))]"
    for v1 v2
  proof -
    have unref: "\<not> list_ex (\<lambda>p. up_order_id p = Some (o_id v1)) (user_purchases s)"
    proof
      assume "list_ex (\<lambda>p. up_order_id p = Some (o_id v1)) (user_purchases s)"
      from cpa_already [OF v1 this, of now1 t1 w1] r1 show False by simp
    qed
    have pending: "status v1 = Pending"
    proof (rule ccontr)
      assume "status v1 \<noteq> Pending"
      from cpa_not_pending [OF v1 unref this, of now1 t1 w1] r1 show False by simp
    qed
    have free: "\<not> list_ex (same_user_book (user_id v1) (book_id v1)) (user_purchases s)"
    proof
      assume "list_ex (same_user_book (user_id v1) (book_id v1)) (user_purchases s)"
      from cpa_conflict [OF v1 unref pending this, of now1 t1 w1] r1 show False by simp
    qed
    have s1: "?s1 = s\<lparr>orders := map (mark_paid now1 (o_id v1)) (orders s),
        user_purchases := user_purchases s @ [purchase_of now1 v1],
        payment_logs := payment_logs s @ [payment_log_of now1 v1 t1 w1],
        audit_logs := audit_logs s @ [payment_audit_of now1 v1 t1]\<rparr>"
      using cpa_settled [OF v1 unref pending free, of now1 t1 w1] by simp
    have "orders ?s1 = map (mark_paid now1 (o_id v1)) (orders s)"
      unfolding s1 by simp
    with v2 ne have v2': "select_order n2 ?s1 = Some v2"
      using select_order_other [of n2 s v2 "o_id v1" ?s1 now1] by simp
    have held: "list_ex (\<lambda>p. up_user_id p = Some u \<and> up_book_id p = Some b) (user_purchases ?s1)"
      unfolding s1 using ub1 by (simp add: purchase_of_def)
    from cpa_holder_noop [OF v2' ub2 held, of now2 t2 w2] show ?thesis .
  qed
  with unique_user_book_count [OF fold_apply_call_unique_user_book [OF uniq]] show ?thesis
    by blast
qed

text \<open>C2 at the shop: two orders created for the same book and both settled leave one
  purchase.\<close>

theorem no_double_purchase_witness:
  "unique_user_book (user_purchases shop)
   \<and> length (filter (\<lambda>p. up_user_id p = Some 7 \<and> up_book_id p = Some 3)
       (user_purchases
          (fold apply_call
             [CreateOrder 0 11 ''20250101'' 1 7 3 (5000000, 2) ''qris'' (Some ''abc''),
              CreateOrder 60 12 ''20250101'' 2 7 3 (5000000, 2) ''qris'' (Some ''xyz''),
              CompletePayment 120 ''ORD-20250101-000001'' ''tx-1'' ''{}'',
              CompletePayment 200 ''ORD-20250101-000002'' ''tx-2'' ''{}''] shop))) = 1
   \<and> complete_payment_atomic 120 ''ORD-20250101-000001'' ''tx-1'' ''{}'' shop_two_orders =
       ([(''success'', JBool True), (''order_id'', JUuid 11)], shop_first_paid)
   \<and> complete_payment_atomic 200 ''ORD-20250101-000002'' ''tx-2'' ''{}'' shop_first_paid =
       ([(''success'', JBool False),
         (''error'', SQLERRM (unique_violation ''user_purchases_user_id_book_id_key''))],
        shop_first_paid)"
proof -
  have h0: "unique_user_book (user_purchases shop)"
    by code_simp
  have h1: "length (filter (\<lambda>p. up_user_id p = Some 7 \<and> up_book_id p = Some 3)
       (user_purchases
          (fold apply_call
             [CreateOrder 0 11 ''20250101'' 1 7 3 (5000000, 2) ''qris'' (Some ''abc''),
              CreateOrder 60 12 ''20250101'' 2 7 3 (5000000, 2) ''qris'' (Some ''xyz''),
              CompletePayment 120 ''ORD-20250101-000001'' ''tx-1'' ''{}'',
              CompletePayment 200 ''ORD-20250101-000002'' ''tx-2'' ''{}''] shop))) = 1"
    by code_simp
  have h2: "complete_payment_atomic 120 ''ORD-20250101-000001'' ''tx-1'' ''{}'' shop_two_orders =
       ([(''success'', JBool True), (''order_id'', JUuid 11)], shop_first_paid)
   \<and> complete_payment_atomic 200 ''ORD-20250101-000002'' ''tx-2'' ''{}'' shop_first_paid =
       ([(''success'', JBool False),
         (''error'', SQLERRM (unique_violation ''user_purchases_user_id_book_id_key''))],
        shop_first_paid)"
    by code_simp
  from no_double_purchase [OF h0, of 7 3] h0 h1 h2 show ?thesis by simp
qed

subsection \<open>Rollback of a failed completion\<close>

lemma cpb_error_cases:
  assumes "complete_payment_body now n t w s = Inl e"
  shows "\<exists>v. select_order n s = Some v
            \<and> \<not> list_ex (\<lambda>p. up_order_id p = Some (o_id v)) (user_purchases s)
            \<and> status v = Pending"
  using assms
  by (auto simp: complete_payment_body_def split: option.splits if_splits)

text \<open>
  C5.  If a statement of the payment-completion block raises after the order was locked
  (in this schema: the insert into user_purchases violates \<open>UNIQUE(user_id, book_id)\<close>),
  the function returns a failure that carries the error, and the database is the one it
  started from: the order is still \<open>pending\<close>, user_purchases and payment_logs are
  unchanged, and the same call made again does what the first one did.
\<close>

theorem complete_payment_atomic_rollback:
  assumes "complete_payment_body now n t w s = Inl e"
  shows "complete_payment_atomic now n t w s =
           ([(''success'', JBool False), (''error'', SQLERRM e)], s)
       \<and> order_status_of n (snd (complete_payment_atomic now n t w s)) = Some Pending
       \<and> user_purchases (snd (complete_payment_atomic now n t w s)) = user_purchases s
       \<and> payment_logs (snd (complete_payment_atomic now n t w s)) = payment_logs s
       \<and> complete_payment_atomic now n t w (snd (complete_payment_atomic now n t w s)) =
           complete_payment_atomic now n t w s"
proof -
  have run: "complete_payment_atomic now n t w s =
           ([(''success'', JBool False), (''error'', SQLERRM e)], s)"
    using assms by (simp add: complete_payment_atomic_def)
  from cpb_error_cases [OF assms] run show ?thesis
    by (auto simp: order_status_of_def)
qed

text \<open>C5 at the second order of \<open>shop_first_paid\<close>, whose purchase insert raises.\<close>

theorem complete_payment_atomic_rollback_witness:
  "complete_payment_body 200 ''ORD-20250101-000002'' ''tx-2'' ''{}'' shop_first_paid =
     Inl (unique_violation ''user_purchases_user_id_book_id_key'')
   \<and> complete_payment_atomic 200 ''ORD-20250101-000002'' ''tx-2'' ''{}'' shop_first_paid =
       ([(''success'', JBool False),
         (''error'', SQLERRM (unique_violation ''user_purchases_user_id_book_id_key''))],
        shop_first_paid)
   \<and> map status (orders shop_first_paid) = [Paid, Pending]"
proof -
  have h: "complete_payment_body 200 ''ORD-20250101-000002'' ''tx-2'' ''{}'' shop_first_paid =
     Inl (unique_violation ''user_purchases_user_id_book_id_key'')"
    by code_simp
  have st: "map status (orders shop_first_paid) = [Paid, Pending]"
    by code_simp
  from complete_payment_atomic_rollback [OF h] h st show ?thesis by simp
qed

subsection \<open>The payment log row\<close>

text \<open>
  C10.  A payment completion either returns no \<open>order_id\<close> and leaves payment_logs as
  it was, or it is the successful completion of the order found, and then it appends
  exactly one payment_logs row whose \<open>transaction_status\<close> is the literal
  \<open>settlement\<close>, whatever the transaction id and the payload are; the payload is stored
  in \<open>webhook_data\<close> and nowhere else (the other gateway columns are NULL, and the audit
  row's details hold the transaction id and the amount).
\<close>

theorem payment_log_transaction_status:
  assumes "complete_payment_atomic now n t w s = (r, s')"
  shows "(map_of r ''order_id'' = None \<and> payment_logs s' = payment_logs s)
       \<or> (\<exists>v. select_order n s = Some v
            \<and> r = [(''success'', JBool True), (''order_id'', JUuid (o_id v))]
            \<and> payment_logs s' = payment_logs s @
                [\<lparr>pl_order_id = Some (o_id v), pl_transaction_id = Some t,
                  payment_type = None, gross_amount = None,
                  transaction_status = Some ''settlement'', fraud_status = None,
                  settlement_time = None, webhook_data = Some w,
                  pl_created_at = Some now\<rparr>]
            \<and> audit_logs s' = audit_logs s @
                [\<lparr>al_user_id = user_id v, action = ''PAYMENT_COMPLETED'',
                  resource_type = Some ''order'', resource_id = Some (o_id v),
                  details = Some [(''transaction_id'', JText t), (''amount'', JNum (amount v))],
                  al_created_at = Some now\<rparr>])"
proof (cases "select_order n s")
  case None
  from cpa_not_found [OF None, of now t w] assms
  have "r = [(''success'', JBool False), (''error'', JText ''ORDER_NOT_FOUND'')]" and "s' = s"
    by simp_all
  then show ?thesis by simp
next
  case (Some v)
  show ?thesis
  proof (cases "list_ex (\<lambda>p. up_order_id p = Some (o_id v)) (user_purchases s)")
    case True
    from cpa_already [OF Some True, of now t w] assms
    have "r = [(''success'', JBool True), (''error'', JText ''ALREADY_PROCESSED''),
               (''message'', JText ''Payment sudah diproses sebelumnya'')]" and "s' = s"
      by simp_all
    then show ?thesis by simp
  next
    case unref: False
    show ?thesis
    proof (cases "status v = Pending")
      case False
      from cpa_not_pending [OF Some unref False, of now t w] assms
      have "r = [(''success'', JBool False), (''error'', JText ''ORDER_NOT_PENDING''),
                 (''current_status'', JText (status_text (status v)))]" and "s' = s"
        by simp_all
      then show ?thesis by simp
    next
      case pending: True
      show ?thesis
      proof (cases "list_ex (same_user_book (user_id v) (book_id v)) (user_purchases s)")
        case True
        from cpa_conflict [OF Some unref pending True, of now t w] assms
        have "r = [(''success'', JBool False),
                   (''error'', SQLERRM (unique_violation ''user_purchases_user_id_book_id_key''))]"
          and "s' = s"
          by simp_all
        then show ?thesis by simp
      next
        case False
        from cpa_settled [OF Some unref pending False, of now t w] assms Some
        show ?thesis
          by (auto simp: payment_log_of_def payment_audit_of_def)
      qed
    qed
  qed
qed

text \<open>C10 at a completion whose payload reports another gateway status.\<close>

theorem payment_log_transaction_status_witness:
  "complete_payment_atomic 120 ''ORD-20250101-000001'' ''capture-77'' ''{status: capture}''
       shop_two_orders =
     (fst (complete_payment_atomic 120 ''ORD-20250101-000001'' ''capture-77''
             ''{status: capture}'' shop_two_orders),
      snd (complete_payment_atomic 120 ''ORD-20250101-000001'' ''capture-77''
             ''{status: capture}'' shop_two_orders))
   \<and> map transaction_status
       (payment_logs (snd (complete_payment_atomic 120 ''ORD-20250101-000001'' ''capture-77''
             ''{status: capture}'' shop_two_orders))) = [Some ''settlement'']
   \<and> map webhook_data
       (payment_logs (snd (complete_payment_atomic 120 ''ORD-20250101-000001'' ''capture-77''
             ''{status: capture}'' shop_two_orders))) = [Some ''{status: capture}'']"
proof -
  have run: "complete_payment_atomic 120 ''ORD-20250101-000001'' ''capture-77''
       ''{status: capture}'' shop_two_orders =
     (fst (complete_payment_atomic 120 ''ORD-20250101-000001'' ''capture-77''
             ''{status: capture}'' shop_two_orders),
      snd (complete_payment_atomic 120 ''ORD-20250101-000001'' ''capture-77''
             ''{status: capture}'' shop_two_orders))"
    by simp
  have vals: "map transaction_status
       (payment_logs (snd (complete_payment_atomic 120 ''ORD-20250101-000001'' ''capture-77''
             ''{status: capture}'' shop_two_orders))) = [Some ''settlement'']
   \<and> map webhook_data
       (payment_logs (snd (complete_payment_atomic 120 ''ORD-20250101-000001'' ''capture-77''
             ''{status: capture}'' shop_two_orders))) = [Some ''{status: capture}'']"
    by code_simp
  from payment_log_transaction_status [OF run] run vals show ?thesis by blast
qed

section \<open>Properties of order creation\<close>

lemma varchar_fits: "length t \<le> n \<Longrightarrow> varchar n t = Inr t"
  by (simp add: varchar_def)

lemma length_LPAD: "length (LPAD t n c) = n"
  by (simp add: LPAD_def)

lemma order_number_fits:
  "length today = 8 \<Longrightarrow>
   varchar 50 (generate_order_number today rnd) = Inr (generate_order_number today rnd)"
  by (rule varchar_fits) (simp add: generate_order_number_def length_LPAD)

lemma insert_orders_key_collision:
  assumes "list_ex (\<lambda>x. idempotency_key x = Some k) (orders s)"
    and "idempotency_key r = Some k"
  shows "\<exists>e. insert_orders r s = Inl e"
  using assms by (simp add: insert_orders_def split: option.splits)

lemma insert_orders_key_collision_unique:
  assumes "list_ex (\<lambda>x. idempotency_key x = Some k) (orders s)"
    and "idempotency_key r = Some k" and "0 < amount r"
    and "expires_at r = Some e" and "created_at r < e"
  shows "\<exists>c. insert_orders r s = Inl (unique_violation c)"
  using assms by (simp add: insert_orders_def)

text \<open>With a key that some row holds, the body returns before the insert or raises.\<close>

lemma create_order_body_key_collision:
  assumes "list_ex (\<lambda>x. idempotency_key x = Some k) (orders s)" and "length k \<le> 255"
  shows "(\<exists>e. create_order_body now v_order_id today rnd p_user_id p_book_id p_amount
                 p_payment_method (Some k) s = Inl e)
       \<or> create_order_body now v_order_id today rnd p_user_id p_book_id p_amount
                 p_payment_method (Some k) s =
           Inr ([(''success'', JBool False), (''error'', JText ''BOOK_NOT_FOUND'')], s)
       \<or> create_order_body now v_order_id today rnd p_user_id p_book_id p_amount
                 p_payment_method (Some k) s =
           Inr ([(''success'', JBool False), (''error'', JText ''BOOK_ALREADY_PURCHASED'')], s)"
proof -
  have ins: "insert_orders (new_order now v_order_id n p_user_id p_book_id a pm (Some k)) s
               \<noteq> Inr s'" for n a pm s'
    using insert_orders_key_collision
            [OF assms(1), of "new_order now v_order_id n p_user_id p_book_id a pm (Some k)"]
    by (auto simp: new_order_def)
  have key: "varchar_opt 255 (Some k) = Inr (Some k)"
    by (simp add: varchar_opt_def varchar_fits [OF assms(2)])
  show ?thesis
    by (simp add: create_order_body_def key ins split: sum.splits)
qed

lemma create_order_body_duplicate:
  assumes "list_ex (\<lambda>x. idempotency_key x = Some k) (orders s)" and "length k \<le> 255"
    and "list_ex (\<lambda>b. b_id b = p_book_id \<and> is_active b = Some True) (books s)"
    and "\<not> list_ex (\<lambda>p. up_user_id p = Some p_user_id \<and> up_book_id p = Some p_book_id)
             (user_purchases s)"
    and "length today = 8" and "0 < hundredths p_amount" and "hundredths p_amount < 10 ^ 12"
    and "length p_payment_method \<le> 50"
  shows "\<exists>c. create_order_body now v_order_id today rnd p_user_id p_book_id p_amount
                 p_payment_method (Some k) s = Inl (unique_violation c)"
proof -
  let ?r = "new_order now v_order_id (generate_order_number today rnd) p_user_id p_book_id
              (hundredths p_amount) p_payment_method (Some k)"
  have "\<exists>c. insert_orders ?r s = Inl (unique_violation c)"
    by (rule insert_orders_key_collision_unique [OF assms(1), where e = "now + 24 * 3600"])
       (simp_all add: new_order_def assms(6))
  then obtain c where c: "insert_orders ?r s = Inl (unique_violation c)" by blast
  have amt: "decimal_12_2 p_amount = Inr (hundredths p_amount)"
    using assms(6,7) by (simp add: decimal_12_2_def)
  have key: "varchar_opt 255 (Some k) = Inr (Some k)"
    by (simp add: varchar_opt_def varchar_fits [OF assms(2)])
  show ?thesis
    using assms(3,4)
    by (simp add: create_order_body_def order_number_fits [OF assms(5)] amt
          varchar_fits [OF assms(8)] key c)
qed

lemma unique_idempotency_key_count:
  "unique_idempotency_key rs \<Longrightarrow>
   length (filter (\<lambda>x. idempotency_key x = Some k) rs) \<le> 1"
proof (induction rs)
  case Nil
  then show ?case by simp
next
  case (Cons r rs)
  show ?case
  proof (cases "idempotency_key r = Some k")
    case True
    with Cons.prems have "filter (\<lambda>x. idempotency_key x = Some k) rs = []"
      by (auto simp: list_ex_iff filter_empty_conv)
    with True show ?thesis by simp
  next
    case False
    with Cons show ?thesis by auto
  qed
qed

lemma list_ex_count:
  "list_ex P xs \<Longrightarrow> 1 \<le> length (filter P xs)"
  by (induction xs) auto

text \<open>
  C3, amended.  For every call of \<open>create_order_with_idempotency\<close> whose idempotency key
  equals the key \<open>k\<close> of an existing order row (a value of the \<open>VARCHAR(255)\<close> column, so of
  at most 255 characters), no second order is created and the database is unchanged, but
  the call returns a failure and no order number, not the original order.  The failure is
  \<open>DUPLICATE_ORDER\<close> when the insert reaches the unique index: the book is active, the
  user does not own it, and the values fit their columns and pass the CHECK on the
  amount, that is, the date text has its eight characters, the amount rounded to two
  decimals is positive and below \<open>10 ^ 10\<close> (\<open>10 ^ 12\<close> hundredths), and the payment method
  has at most 50 characters.  Afterwards exactly one order row holds that key, given that
  orders satisfied \<open>UNIQUE(idempotency_key)\<close> before.
\<close>

theorem create_order_idempotency_key_collision:
  assumes "list_ex (\<lambda>x. idempotency_key x = Some k) (orders s)" and "length k \<le> 255"
  shows "snd (create_order_with_idempotency now v_order_id today rnd p_user_id p_book_id
                p_amount p_payment_method (Some k) s) = s
       \<and> map_of (fst (create_order_with_idempotency now v_order_id today rnd p_user_id
                p_book_id p_amount p_payment_method (Some k) s)) ''success'' = Some (JBool False)
       \<and> map_of (fst (create_order_with_idempotency now v_order_id today rnd p_user_id
                p_book_id p_amount p_payment_method (Some k) s)) ''order_number'' = None
       \<and> (list_ex (\<lambda>b. b_id b = p_book_id \<and> is_active b = Some True) (books s)
          \<and> \<not> list_ex (\<lambda>p. up_user_id p = Some p_user_id \<and> up_book_id p = Some p_book_id)
                (user_purchases s)
          \<and> length today = 8
          \<and> 0 < hundredths p_amount \<and> hundredths p_amount < 10 ^ 12
          \<and> length p_payment_method \<le> 50
          \<longrightarrow> fst (create_order_with_idempotency now v_order_id today rnd p_user_id p_book_id
                p_amount p_payment_method (Some k) s) =
              [(''success'', JBool False), (''error'', JText ''DUPLICATE_ORDER'')])
       \<and> (unique_idempotency_key (orders s)
          \<longrightarrow> length (filter (\<lambda>x. idempotency_key x = Some k)
                (orders (snd (create_order_with_idempotency now v_order_id today rnd p_user_id
                   p_book_id p_amount p_payment_method (Some k) s)))) = 1)"
proof -
  let ?body = "create_order_body now v_order_id today rnd p_user_id p_book_id p_amount
                 p_payment_method (Some k) s"
  let ?call = "create_order_with_idempotency now v_order_id today rnd p_user_id p_book_id
                 p_amount p_payment_method (Some k) s"
  from create_order_body_key_collision [OF assms]
  consider e where "?body = Inl e"
    | "?body = Inr ([(''success'', JBool False), (''error'', JText ''BOOK_NOT_FOUND'')], s)"
    | "?body = Inr ([(''success'', JBool False), (''error'', JText ''BOOK_ALREADY_PURCHASED'')], s)"
    by blast
  then have fail: "snd ?call = s \<and> map_of (fst ?call) ''success'' = Some (JBool False)
      \<and> map_of (fst ?call) ''order_number'' = None"
  proof cases
    case 1
    then show ?thesis by (cases e) (simp_all add: create_order_with_idempotency_def)
  next
    case 2
    then show ?thesis by (simp add: create_order_with_idempotency_def)
  next
    case 3
    then show ?thesis by (simp add: create_order_with_idempotency_def)
  qed
  have dup: "fst ?call = [(''success'', JBool False), (''error'', JText ''DUPLICATE_ORDER'')]"
    if "list_ex (\<lambda>b. b_id b = p_book_id \<and> is_active b = Some True) (books s)"
      and "\<not> list_ex (\<lambda>p. up_user_id p = Some p_user_id \<and> up_book_id p = Some p_book_id)
               (user_purchases s)"
      and "length today = 8" and "0 < hundredths p_amount"
      and "hundredths p_amount < 10 ^ 12" and "length p_payment_method \<le> 50"
  proof -
    from create_order_body_duplicate [OF assms that]
    obtain c where "?body = Inl (unique_violation c)" by blast
    then show ?thesis by (simp add: create_order_with_idempotency_def)
  qed
  have one: "length (filter (\<lambda>x. idempotency_key x = Some k) (orders s)) = 1"
    if "unique_idempotency_key (orders s)"
    using unique_idempotency_key_count [OF that, of k] list_ex_count [OF assms(1)] by simp
  from fail dup one show ?thesis by simp
qed

text \<open>
  C3 as stated fails: the first call creates order \<open>ORD-20250101-000001\<close> under the key
  \<open>abc\<close>; the replay with the same key returns \<open>success = false\<close> with
  \<open>DUPLICATE_ORDER\<close> instead of that order.
\<close>

theorem create_order_replay_counterexample:
  "create_order_with_idempotency 0 11 ''20250101'' 1 7 3 (5000000, 2) ''qris'' (Some ''abc'')
       shop =
     ([(''success'', JBool True), (''order_id'', JUuid 11),
       (''order_number'', JText ''ORD-20250101-000001'')], shop_one_order)
   \<and> create_order_with_idempotency 30 13 ''20250101'' 5 7 3 (5000000, 2) ''qris''
       (Some ''abc'') shop_one_order =
     ([(''success'', JBool False), (''error'', JText ''DUPLICATE_ORDER'')], shop_one_order)"
  by code_simp

text \<open>The amended C3 at the same replay; one row holds the key before and after.\<close>

theorem create_order_idempotency_key_collision_witness:
  "list_ex (\<lambda>x. idempotency_key x = Some ''abc'') (orders shop_one_order)
   \<and> create_order_with_idempotency 30 13 ''20250101'' 5 7 3 (5000000, 2) ''qris''
       (Some ''abc'') shop_one_order =
     ([(''success'', JBool False), (''error'', JText ''DUPLICATE_ORDER'')], shop_one_order)
   \<and> length (filter (\<lambda>x. idempotency_key x = Some ''abc'') (orders shop_one_order)) = 1"
proof -
  have h: "list_ex (\<lambda>x. idempotency_key x = Some ''abc'') (orders shop_one_order)"
    by code_simp
  have l: "length ''abc'' \<le> 255" by simp
  have b: "list_ex (\<lambda>b. b_id b = 3 \<and> is_active b = Some True) (books shop_one_order)
     \<and> \<not> list_ex (\<lambda>p. up_user_id p = Some 7 \<and> up_book_id p = Some 3)
           (user_purchases shop_one_order)"
    by code_simp
  have v: "length ''20250101'' = 8 \<and> 0 < hundredths (5000000, 2)
     \<and> hundredths (5000000, 2) < 10 ^ 12 \<and> length ''qris'' \<le> 50"
    by (simp add: hundredths_def)
  have c: "length (filter (\<lambda>x. idempotency_key x = Some ''abc'') (orders shop_one_order)) = 1"
    by code_simp
  from create_order_idempotency_key_collision
         [OF h l, of 30 13 "''20250101''" 5 7 3 "(5000000, 2)" "''qris''"]
    h b v c
  show ?thesis by (simp add: prod_eq_iff)
qed

text \<open>The coercion of the amount at the same replay: \<open>10 ^ 10\<close> does not fit
  \<open>DECIMAL(12,2)\<close> and the insert raises before it reaches the unique index; 0.004 is
  stored as 0.00 and fails the CHECK; 0.005 is stored as 0.01 and reaches the index.\<close>

lemma create_order_amount_coercion:
  "create_order_with_idempotency 30 13 ''20250101'' 5 7 3 (10000000000, 0) ''qris''
       (Some ''abc'') shop_one_order =
     ([(''success'', JBool False),
       (''error'', SQLERRM (numeric_value_out_of_range ''numeric field overflow''))],
      shop_one_order)
   \<and> create_order_with_idempotency 30 13 ''20250101'' 5 7 3 (4, 3) ''qris''
       (Some ''abc'') shop_one_order =
     ([(''success'', JBool False),
       (''error'', SQLERRM (check_violation ''orders_amount_positive''))],
      shop_one_order)
   \<and> create_order_with_idempotency 30 13 ''20250101'' 5 7 3 (5, 3) ''qris''
       (Some ''abc'') shop_one_order =
     ([(''success'', JBool False), (''error'', JText ''DUPLICATE_ORDER'')], shop_one_order)"
  by code_simp

section \<open>Properties of webhook deduplication\<close>






section \<open>Properties of the expiry sweep\<close>

lemma is_stale_iff:
  "is_stale now r = (status r = Pending \<and> (\<exists>e. expires_at r = Some e \<and> e < now))"
  by (simp add: is_stale_def split: option.splits)

lemma expire_fixed: "(expire now r = r) = (\<not> is_stale now r)"
proof (cases "is_stale now r")
  case True
  then have "status (expire now r) \<noteq> status r"
    by (simp add: expire_def is_stale_def)
  with True show ?thesis by auto
next
  case False
  then show ?thesis by (simp add: expire_def)
qed

lemma card_changed:
  "card {i. i < length xs \<and> map (expire now) xs ! i \<noteq> xs ! i} =
   length (filter (is_stale now) xs)"
proof -
  have "{i. i < length xs \<and> map (expire now) xs ! i \<noteq> xs ! i} =
        {i. i < length xs \<and> is_stale now (xs ! i)}"
    by (auto simp: expire_fixed)
  then show ?thesis by (simp add: length_filter_conv_card)
qed

lemma card_stale:
  "card {i. i < length xs \<and> status (xs ! i) = Pending
            \<and> (\<exists>e. expires_at (xs ! i) = Some e \<and> e < now)} =
   length (filter (is_stale now) xs)"
  by (simp add: length_filter_conv_card is_stale_iff)

lemma nth_expire:
  "i < length xs \<Longrightarrow>
   map (expire now) xs ! i =
     (if status (xs ! i) = Pending \<and> (\<exists>e. expires_at (xs ! i) = Some e \<and> e < now)
      then (xs ! i)\<lparr>status := Expired, updated_at := now\<rparr> else xs ! i)"
  by (simp add: expire_def is_stale_iff)

text \<open>
  C7.  The sweep keeps the number and the order of the rows of orders; a row with
  \<open>status = pending\<close> and \<open>expires_at\<close> earlier than \<open>now\<close> becomes \<open>expired\<close> (with
  \<open>updated_at = now\<close>) and every other row is unchanged; the value returned is the number
  of such rows, which is the number of rows that changed; the other tables are unchanged
  but for one audit row that records the count.
\<close>

theorem cleanup_expired_orders_exact:
  assumes "cleanup_expired_orders now s = (c, s')"
  shows "length (orders s') = length (orders s)
       \<and> (\<forall>i<length (orders s).
            orders s' ! i =
              (if status (orders s ! i) = Pending
                  \<and> (\<exists>e. expires_at (orders s ! i) = Some e \<and> e < now)
               then (orders s ! i)\<lparr>status := Expired, updated_at := now\<rparr>
               else orders s ! i))
       \<and> c = int (card {i. i < length (orders s) \<and> status (orders s ! i) = Pending
                          \<and> (\<exists>e. expires_at (orders s ! i) = Some e \<and> e < now)})
       \<and> c = int (card {i. i < length (orders s) \<and> orders s' ! i \<noteq> orders s ! i})
       \<and> user_purchases s' = user_purchases s \<and> payment_logs s' = payment_logs s
       \<and> webhook_events s' = webhook_events s \<and> books s' = books s \<and> users s' = users s
       \<and> (\<exists>a. audit_logs s' = audit_logs s @ [a] \<and> action a = ''EXPIRED_ORDERS_CLEANUP''
              \<and> details a = Some [(''expired_count'', JNum c)])"
proof -
  have c: "c = int (length (filter (is_stale now) (orders s)))"
    and s': "orders s' = map (expire now) (orders s)"
    using assms by (auto simp: cleanup_expired_orders_def Let_def)
  have len: "length (orders s') = length (orders s)"
    using s' by simp
  have nth: "\<forall>i<length (orders s).
            orders s' ! i =
              (if status (orders s ! i) = Pending
                  \<and> (\<exists>e. expires_at (orders s ! i) = Some e \<and> e < now)
               then (orders s ! i)\<lparr>status := Expired, updated_at := now\<rparr>
               else orders s ! i)"
    unfolding s' using nth_expire by blast
  have c1: "c = int (card {i. i < length (orders s) \<and> status (orders s ! i) = Pending
                          \<and> (\<exists>e. expires_at (orders s ! i) = Some e \<and> e < now)})"
    unfolding c by (simp only: card_stale)
  have c2: "c = int (card {i. i < length (orders s) \<and> orders s' ! i \<noteq> orders s ! i})"
    unfolding c s' by (simp only: card_changed)
  have rest: "user_purchases s' = user_purchases s \<and> payment_logs s' = payment_logs s
       \<and> webhook_events s' = webhook_events s \<and> books s' = books s \<and> users s' = users s"
    using assms by (auto simp: cleanup_expired_orders_def Let_def)
  have audit: "\<exists>a. audit_logs s' = audit_logs s @ [a] \<and> action a = ''EXPIRED_ORDERS_CLEANUP''
              \<and> details a = Some [(''expired_count'', JNum c)]"
    using assms by (auto simp: cleanup_expired_orders_def Let_def)
  from len nth c1 c2 rest audit show ?thesis by blast
qed

text \<open>C7 at \<open>shop_first_paid\<close>: the paid order is untouched, the stale pending one expires.\<close>

theorem cleanup_expired_orders_exact_witness:
  "fst (cleanup_expired_orders 86430 shop_first_paid) = 0
   \<and> fst (cleanup_expired_orders 90000 shop_first_paid) = 1
   \<and> map status (orders (snd (cleanup_expired_orders 90000 shop_first_paid))) = [Paid, Expired]
   \<and> map status (orders (snd (cleanup_expired_orders 90000 shop_two_orders))) =
       [Expired, Expired]"
proof -
  have run: "cleanup_expired_orders 90000 shop_first_paid =
      (fst (cleanup_expired_orders 90000 shop_first_paid),
       snd (cleanup_expired_orders 90000 shop_first_paid))"
    by simp
  have vals: "fst (cleanup_expired_orders 86430 shop_first_paid) = 0
   \<and> fst (cleanup_expired_orders 90000 shop_first_paid) = 1
   \<and> map status (orders (snd (cleanup_expired_orders 90000 shop_first_paid))) = [Paid, Expired]
   \<and> map status (orders (snd (cleanup_expired_orders 90000 shop_two_orders))) =
       [Expired, Expired]"
    by code_simp
  from cleanup_expired_orders_exact [OF run] vals show ?thesis by blast
qed

subsection \<open>The race between settlement and sweep\<close>




section \<open>Properties of the payment monitor\<close>

subsection \<open>Effects of the methods on the timer table\<close>

lemma stopStatusPolling_fields [simp]:
  "clock (stopStatusPolling b) = clock b"
  "next_timer_id (stopStatusPolling b) = next_timer_id b"
  "history (stopStatusPolling b) = history b"
  "requests (stopStatusPolling b) = requests b"
  "emitted (stopStatusPolling b) = emitted b"
  "currentOrder (stopStatusPolling b) = currentOrder b"
  "statusCheckInterval (stopStatusPolling b) = None"
  by (simp_all add: stopStatusPolling_def clearInterval_def split: option.splits)

lemma timers_stopStatusPolling:
  "timers (stopStatusPolling b) =
     (case statusCheckInterval b of
        None \<Rightarrow> timers b
      | Some i \<Rightarrow> filter (\<lambda>t. timer_id t \<noteq> i) (timers b))"
  by (simp add: stopStatusPolling_def clearInterval_def split: option.splits)

text \<open>A status check either leaves the timer table and the polling handle alone or
  does to them what \<open>stopStatusPolling\<close> does.\<close>

lemma checkPaymentStatus_timers:
  "(timers (checkPaymentStatus env b) = timers b
      \<and> statusCheckInterval (checkPaymentStatus env b) = statusCheckInterval b)
   \<or> (timers (checkPaymentStatus env b) = timers (stopStatusPolling b)
      \<and> statusCheckInterval (checkPaymentStatus env b) = None)"
  by (auto simp: checkPaymentStatus_def Let_def handlePaymentSuccess_def
        handlePaymentFailure_def handlePaymentPending_def triggerPaymentCallbacks_def
        close_window_if_open_def stopStatusPolling_def clearInterval_def
        split: option.splits order_status.splits)

lemma checkPaymentStatus_fields [simp]:
  "clock (checkPaymentStatus env b) = clock b"
  "next_timer_id (checkPaymentStatus env b) = next_timer_id b"
  "history (checkPaymentStatus env b) = history b"
  by (auto simp: checkPaymentStatus_def Let_def handlePaymentSuccess_def
        handlePaymentFailure_def handlePaymentPending_def triggerPaymentCallbacks_def
        close_window_if_open_def stopStatusPolling_def clearInterval_def
        split: option.splits order_status.splits)

lemma checkPaymentStatus_requests:
  "requests (checkPaymentStatus env b) =
     (if currentOrder b = None then requests b else requests b @ [clock b])"
  by (auto simp: checkPaymentStatus_def Let_def handlePaymentSuccess_def
        handlePaymentFailure_def handlePaymentPending_def triggerPaymentCallbacks_def
        close_window_if_open_def stopStatusPolling_def clearInterval_def
        split: option.splits order_status.splits)


lemma window_check_fields [simp]:
  "clock (window_check env own b) = clock b"
  "history (window_check env own b) = history b"
  "requests (window_check env own b) = requests b"
  "currentOrder (window_check env own b) = currentOrder b"
  "statusCheckInterval (window_check env own b) = statusCheckInterval b"
  by (simp_all add: window_check_def Let_def setTimeout_def clearInterval_def
        triggerPaymentCallbacks_def)

lemma window_check_timers:
  "timers (window_check env own b) =
     (if window_is_closed env b
      then filter (\<lambda>t. timer_id t \<noteq> own) (timers b) @
             [\<lparr>timer_id = next_timer_id b, due = clock b + 2000, repeat = None,
               callback = FinalCheck\<rparr>]
      else timers b)"
  "next_timer_id (window_check env own b) =
     (if window_is_closed env b then Suc (next_timer_id b) else next_timer_id b)"
  by (simp_all add: window_check_def Let_def setTimeout_def clearInterval_def
        triggerPaymentCallbacks_def)

text \<open>What \<open>startStatusPolling\<close> and \<open>startPaymentMonitoring\<close> do to a manager, whatever
  timers it still has armed.\<close>

lemma startStatusPolling_eq:
  "startStatusPolling b =
     b\<lparr>timers :=
         filter (\<lambda>t. Some (timer_id t) \<noteq> statusCheckInterval b) (timers b) @
         [\<lparr>timer_id = next_timer_id b, due = clock b + 5000, repeat = Some 5000,
           callback = StatusPoll\<rparr>,
          \<lparr>timer_id = Suc (next_timer_id b), due = clock b + 30 * 60 * 1000, repeat = None,
           callback = AutoStop\<rparr>],
        next_timer_id := Suc (Suc (next_timer_id b)),
        statusCheckInterval := Some (next_timer_id b)\<rparr>"
  by (simp add: startStatusPolling_def setInterval_def setTimeout_def clearInterval_def Let_def
        split: option.splits)

lemma startPaymentMonitoring_eq:
  "startPaymentMonitoring b =
     b\<lparr>timers :=
         filter (\<lambda>t. Some (timer_id t) \<noteq> statusCheckInterval b) (timers b) @
         [\<lparr>timer_id = next_timer_id b, due = clock b + 5000, repeat = Some 5000,
           callback = StatusPoll\<rparr>,
          \<lparr>timer_id = Suc (next_timer_id b), due = clock b + 30 * 60 * 1000, repeat = None,
           callback = AutoStop\<rparr>,
          \<lparr>timer_id = Suc (Suc (next_timer_id b)), due = clock b + 1000, repeat = Some 1000,
           callback = WindowCheck\<rparr>],
        next_timer_id := Suc (Suc (Suc (next_timer_id b))),
        statusCheckInterval := Some (next_timer_id b)\<rparr>"
  by (simp add: startPaymentMonitoring_def startStatusPolling_eq setInterval_def)

lemma fire_SomeE:
  assumes "fire env i b = Some b'"
  obtains t where "find (\<lambda>t. timer_id t = i) (timers b) = Some t"
    and "t \<in> set (timers b)" and "timer_id t = i"
    and "\<forall>u\<in>set (timers b). due t \<le> due u"
    and "location_href b = None"
    and "b' = run_callback env t
            (b\<lparr>clock := due t, timers := rearm t (timers b),
               history := history b @ [(due t, callback t)]\<rparr>)"
proof -
  from assms obtain t where f: "find (\<lambda>t. timer_id t = i) (timers b) = Some t"
    by (auto simp: fire_def split: option.splits)
  from f have mem: "t \<in> set (timers b)" and id: "timer_id t = i"
    by (auto simp: find_Some_iff)
  from assms f have
    "\<forall>u\<in>set (timers b). due t \<le> due u" "location_href b = None"
    "b' = run_callback env t
            (b\<lparr>clock := due t, timers := rearm t (timers b),
               history := history b @ [(due t, callback t)]\<rparr>)"
    by (auto simp: fire_def list_all_iff split: if_splits)
  with f mem id that show thesis by blast
qed

lemma list_all_mapI:
  "(\<And>u. u \<in> set xs \<Longrightarrow> P (f u)) \<Longrightarrow> list_all P (map f xs)"
  by (induction xs) auto

lemma list_ex_callback_map:
  "(\<And>u. callback (f u) = callback u) \<Longrightarrow>
   list_ex (\<lambda>t. callback t = c) (map f xs) = list_ex (\<lambda>t. callback t = c) xs"
  by (induction xs) auto

lemma list_ex_callback_filter:
  "(\<And>u. u \<in> set xs \<Longrightarrow> callback u = c \<Longrightarrow> P u) \<Longrightarrow>
   list_ex (\<lambda>t. callback t = c) (filter P xs) = list_ex (\<lambda>t. callback t = c) xs"
  by (induction xs) auto

lemma rearm_ids: "map timer_id (rearm t ts) =
    (case repeat t of Some d \<Rightarrow> map timer_id ts
     | None \<Rightarrow> filter (\<lambda>i. i \<noteq> timer_id t) (map timer_id ts))"
  by (induction ts) (auto simp: rearm_def split: option.splits)

lemma distinct_rearm: "distinct (map timer_id ts) \<Longrightarrow> distinct (map timer_id (rearm t ts))"
  by (simp add: rearm_ids split: option.splits)

lemma set_rearm:
  "u \<in> set (rearm t ts) \<Longrightarrow>
   u \<in> set ts \<or> (\<exists>v d. v \<in> set ts \<and> repeat t = Some d \<and> timer_id v = timer_id t
                     \<and> u = v\<lparr>due := due v + d\<rparr>)"
  by (auto simp: rearm_def split: option.splits if_splits)

subsection \<open>The facts of \<open>wf_manager\<close> are kept\<close>

lemma wf_manager_new: "wf_manager (new_PaymentManager now n)"
  by (simp add: wf_manager_def new_PaymentManager_def)

lemma wf_manager_cong:
  assumes "timers b' = timers b" "clock b' = clock b" "next_timer_id b' = next_timer_id b"
    "statusCheckInterval b' = statusCheckInterval b"
  shows "wf_manager b' = wf_manager b"
proof -
  have "wf_timer b' = wf_timer b"
    using assms by (simp add: wf_timer_def fun_eq_iff)
  with assms show ?thesis by (simp add: wf_manager_def)
qed

lemma wf_manager_stop:
  assumes "wf_manager b"
  shows "wf_manager (stopStatusPolling b)"
proof (cases "statusCheckInterval b")
  case None
  then have "stopStatusPolling b = b" by (simp add: stopStatusPolling_def)
  with assms show ?thesis by simp
next
  case (Some i)
  have tm: "timers (stopStatusPolling b) = filter (\<lambda>t. timer_id t \<noteq> i) (timers b)"
    using Some by (simp add: timers_stopStatusPolling)
  have ok: "\<forall>t\<in>set (timers b). wf_timer b t"
    using assms by (simp add: wf_manager_def list_all_iff)
  have "wf_timer (stopStatusPolling b) t" if "t \<in> set (timers b)" "timer_id t \<noteq> i" for t
    using ok that Some by (auto simp: wf_timer_def split: if_splits)
  then have "list_all (wf_timer (stopStatusPolling b)) (timers (stopStatusPolling b))"
    unfolding tm by (simp add: list_all_iff)
  moreover have "distinct (map timer_id (timers (stopStatusPolling b)))"
    unfolding tm using assms by (simp add: wf_manager_def distinct_map_filter)
  ultimately show ?thesis by (simp add: wf_manager_def)
qed

lemma wf_manager_check:
  assumes "wf_manager b"
  shows "wf_manager (checkPaymentStatus env b)"
proof -
  from checkPaymentStatus_timers [of env b] show ?thesis
  proof
    assume "timers (checkPaymentStatus env b) = timers b
      \<and> statusCheckInterval (checkPaymentStatus env b) = statusCheckInterval b"
    then show ?thesis
      using assms wf_manager_cong [of "checkPaymentStatus env b" b] by simp
  next
    assume "timers (checkPaymentStatus env b) = timers (stopStatusPolling b)
      \<and> statusCheckInterval (checkPaymentStatus env b) = None"
    then show ?thesis
      using wf_manager_stop [OF assms]
        wf_manager_cong [of "checkPaymentStatus env b" "stopStatusPolling b"]
      by simp
  qed
qed

lemma wf_manager_window_check:
  assumes "wf_manager b"
  shows "wf_manager (window_check env own b)"
proof (cases "window_is_closed env b")
  case False
  with assms show ?thesis by (simp add: window_check_def)
next
  case True
  let ?b' = "window_check env own b"
  have tm: "timers ?b' = filter (\<lambda>t. timer_id t \<noteq> own) (timers b) @
             [\<lparr>timer_id = next_timer_id b, due = clock b + 2000, repeat = None,
               callback = FinalCheck\<rparr>]"
    and nx: "next_timer_id ?b' = Suc (next_timer_id b)"
    using True by (simp_all add: window_check_timers)
  have ok: "\<forall>t\<in>set (timers b). wf_timer b t"
    and dist: "distinct (map timer_id (timers b))"
    using assms by (simp_all add: wf_manager_def list_all_iff)
  have "wf_timer ?b' t" if "t \<in> set (timers b)" for t
    using ok that nx by (auto simp: wf_timer_def split: if_splits)
  moreover have "wf_timer ?b' \<lparr>timer_id = next_timer_id b, due = clock b + 2000, repeat = None,
               callback = FinalCheck\<rparr>"
    using nx by (simp add: wf_timer_def)
  ultimately have "list_all (wf_timer ?b') (timers ?b')"
    unfolding tm by (simp add: list_all_iff)
  moreover have "next_timer_id b \<notin> timer_id ` set (timers b)"
    using ok by (auto simp: wf_timer_def)
  then have "distinct (map timer_id (timers ?b'))"
    unfolding tm using dist by (auto simp: distinct_map_filter)
  ultimately show ?thesis by (simp add: wf_manager_def)
qed

lemma wf_manager_rearm:
  assumes wf: "wf_manager b" and mem: "t \<in> set (timers b)"
    and first: "\<forall>u\<in>set (timers b). due t \<le> due u"
  shows "wf_manager (b\<lparr>clock := due t, timers := rearm t (timers b), history := H\<rparr>)"
proof -
  let ?b1 = "b\<lparr>clock := due t, timers := rearm t (timers b), history := H\<rparr>"
  have ok: "\<forall>u\<in>set (timers b). wf_timer b u"
    and dist: "distinct (map timer_id (timers b))"
    using wf by (simp_all add: wf_manager_def list_all_iff)
  have "wf_timer ?b1 u" if u: "u \<in> set (rearm t (timers b))" for u
  proof -
    from set_rearm [OF u] show ?thesis
    proof
      assume "u \<in> set (timers b)"
      with ok first show ?thesis by (auto simp: wf_timer_def split: if_splits)
    next
      assume "\<exists>v d. v \<in> set (timers b) \<and> repeat t = Some d \<and> timer_id v = timer_id t
                     \<and> u = v\<lparr>due := due v + d\<rparr>"
      then obtain v d where v: "v \<in> set (timers b)" "repeat t = Some d"
        "timer_id v = timer_id t" "u = v\<lparr>due := due v + d\<rparr>"
        by blast
      from dist mem v(1,3) have "v = t"
        by (meson distinct_map inj_onD)
      with ok v first mem show ?thesis
        by (auto simp: wf_timer_def split: if_splits)
    qed
  qed
  then have "list_all (wf_timer ?b1) (timers ?b1)"
    by (simp add: list_all_iff)
  with distinct_rearm [OF dist, of t] show ?thesis
    by (simp add: wf_manager_def)
qed

lemma wf_manager_fire:
  assumes wf: "wf_manager b" and fired: "fire env i b = Some b'"
  shows "wf_manager b'"
proof -
  from fired obtain t where mem: "t \<in> set (timers b)"
    and first: "\<forall>u\<in>set (timers b). due t \<le> due u"
    and b': "b' = run_callback env t
            (b\<lparr>clock := due t, timers := rearm t (timers b),
               history := history b @ [(due t, callback t)]\<rparr>)"
    by (rule fire_SomeE)
  from wf_manager_rearm [OF wf mem first]
  have "wf_manager (b\<lparr>clock := due t, timers := rearm t (timers b),
               history := history b @ [(due t, callback t)]\<rparr>)" .
  then show ?thesis
    unfolding b' run_callback_def
    by (cases "callback t")
       (simp_all add: wf_manager_check wf_manager_stop wf_manager_window_check)
qed

lemma wf_manager_run:
  assumes "wf_manager b" and "run env sched b = Some b'"
  shows "wf_manager b'"
  using assms
proof (induction sched arbitrary: b)
  case Nil
  then show ?case by simp
next
  case (Cons i sched)
  from Cons.prems(2) obtain b1 where f: "fire env i b = Some b1"
    and r: "run env sched b1 = Some b'"
    by (auto split: option.splits)
  from Cons.IH [OF wf_manager_fire [OF Cons.prems(1) f] r] show ?case .
qed

lemma wf_manager_startStatusPolling:
  assumes "wf_manager b"
  shows "wf_manager (startStatusPolling b)"
proof -
  let ?b' = "startStatusPolling b"
  let ?old = "filter (\<lambda>t. Some (timer_id t) \<noteq> statusCheckInterval b) (timers b)"
  let ?poll = "\<lparr>timer_id = next_timer_id b, due = clock b + 5000, repeat = Some 5000,
           callback = StatusPoll\<rparr>"
  let ?stop = "\<lparr>timer_id = Suc (next_timer_id b), due = clock b + 30 * 60 * 1000,
           repeat = None, callback = AutoStop\<rparr>"
  have tm: "timers ?b' = ?old @ [?poll, ?stop]"
    and fs: "next_timer_id ?b' = Suc (Suc (next_timer_id b))" "clock ?b' = clock b"
      "statusCheckInterval ?b' = Some (next_timer_id b)"
    by (simp_all add: startStatusPolling_eq)
  have ok: "\<forall>t\<in>set (timers b). wf_timer b t"
    and dist: "distinct (map timer_id (timers b))"
    using assms by (simp_all add: wf_manager_def list_all_iff)
  have "wf_timer ?b' t" if "t \<in> set ?old" for t
    using ok that fs by (auto simp: wf_timer_def split: if_splits)
  moreover have "wf_timer ?b' ?poll" "wf_timer ?b' ?stop"
    using fs by (simp_all add: wf_timer_def)
  ultimately have "list_all (wf_timer ?b') (timers ?b')"
    unfolding tm by (simp add: list_all_iff)
  moreover have "\<forall>t\<in>set (timers b). timer_id t < next_timer_id b"
    using ok by (simp add: wf_timer_def)
  then have "distinct (map timer_id (timers ?b'))"
    unfolding tm using dist by (auto simp: distinct_map_filter)
  ultimately show ?thesis by (simp add: wf_manager_def)
qed

lemma wf_manager_startPaymentMonitoring:
  assumes "wf_manager b"
  shows "wf_manager (startPaymentMonitoring b)"
proof -
  let ?b1 = "startStatusPolling b"
  let ?b' = "startPaymentMonitoring b"
  let ?watch = "\<lparr>timer_id = next_timer_id ?b1, due = clock ?b1 + 1000, repeat = Some 1000,
           callback = WindowCheck\<rparr>"
  have wf1: "wf_manager ?b1"
    using wf_manager_startStatusPolling [OF assms] .
  have tm: "timers ?b' = timers ?b1 @ [?watch]"
    and fs: "next_timer_id ?b' = Suc (next_timer_id ?b1)" "clock ?b' = clock ?b1"
      "statusCheckInterval ?b' = statusCheckInterval ?b1"
    by (simp_all add: startPaymentMonitoring_def setInterval_def)
  have ok: "\<forall>t\<in>set (timers ?b1). wf_timer ?b1 t"
    and dist: "distinct (map timer_id (timers ?b1))"
    using wf1 by (simp_all add: wf_manager_def list_all_iff)
  have "wf_timer ?b' t" if "t \<in> set (timers ?b1)" for t
    using ok that fs by (auto simp: wf_timer_def split: if_splits)
  moreover have "wf_timer ?b' ?watch"
    using fs by (simp add: wf_timer_def)
  ultimately have "list_all (wf_timer ?b') (timers ?b')"
    unfolding tm by (simp add: list_all_iff)
  moreover have "\<forall>t\<in>set (timers ?b1). timer_id t < next_timer_id ?b1"
    using ok by (simp add: wf_timer_def)
  then have "distinct (map timer_id (timers ?b'))"
    unfolding tm using dist by auto
  ultimately show ?thesis by (simp add: wf_manager_def)
qed

subsection \<open>The invariant of a polling period is kept\<close>

lemma poll_inv_cong:
  assumes "timers b' = timers b" "clock b' = clock b" "next_timer_id b' = next_timer_id b"
    "statusCheckInterval b' = statusCheckInterval b"
  shows "poll_inv T0 n0 m b' = poll_inv T0 n0 m b"
  using assms by (simp add: poll_inv_def polling_def stop_armed_def)

lemma timer_ok_poll_id:
  "timer_ok T0 n0 m now t \<Longrightarrow> callback t = StatusPoll \<Longrightarrow> timer_id t = n0"
  by (auto simp: timer_ok_def)

lemma timer_ok_other_id:
  "timer_ok T0 n0 m now t \<Longrightarrow> callback t \<noteq> StatusPoll \<Longrightarrow> timer_id t \<noteq> n0"
  by (auto simp: timer_ok_def)

lemma timer_ok_poll_iff:
  "timer_ok T0 n0 m now t \<Longrightarrow> (callback t = StatusPoll) = (timer_id t = n0)"
  by (auto simp: timer_ok_def split: if_splits)

lemma timer_ok_stop:
  "timer_ok T0 n0 m now t \<Longrightarrow> timer_id t = Suc n0 \<Longrightarrow>
   t = \<lparr>timer_id = Suc n0, due = T0 + 30 * 60 * 1000, repeat = None, callback = AutoStop\<rparr>"
  by (auto simp: timer_ok_def split: if_splits)

lemma timer_ok_later:
  "timer_ok T0 n0 m now u \<Longrightarrow> now' \<le> due u \<Longrightarrow> callback u \<noteq> StatusPoll \<Longrightarrow>
   timer_ok T0 n0 m' now' u"
  by (auto simp: timer_ok_def)

lemma timer_ok_now:
  "timer_ok T0 n0 m now u \<Longrightarrow> now' \<le> due u \<Longrightarrow> timer_ok T0 n0 m now' u"
  by (auto simp: timer_ok_def split: if_splits)

lemma list_ex_id_map:
  "(\<And>u. timer_id (f u) = timer_id u) \<Longrightarrow>
   list_ex (\<lambda>t. timer_id t = k) (map f xs) = list_ex (\<lambda>t. timer_id t = k) xs"
  by (induction xs) auto

lemma timer_ok_postponed:
  assumes "timer_ok T0 n0 m now u" and "timer_id u \<noteq> n0" and "timer_id u \<noteq> Suc n0"
    and "now' \<le> due u" and "0 \<le> d"
  shows "timer_ok T0 n0 m now' (u\<lparr>due := due u + d\<rparr>)"
  using assms by (auto simp: timer_ok_def split: if_splits)

lemma poll_inv_stop:
  assumes "poll_inv T0 n0 m b"
  shows "poll_inv T0 n0 m (stopStatusPolling b)"
proof (cases "polling b")
  case True
  with assms have sci: "statusCheckInterval b = Some n0"
    by (simp add: poll_inv_def)
  have ok: "list_all (timer_ok T0 n0 m (clock b)) (timers b)"
    using assms by (simp add: poll_inv_def)
  have tm: "timers (stopStatusPolling b) = filter (\<lambda>t. timer_id t \<noteq> n0) (timers b)"
    using sci by (simp add: timers_stopStatusPolling)
  have nopoll: "\<not> polling (stopStatusPolling b)"
    using ok timer_ok_poll_id unfolding polling_def tm
    by (auto simp: list_ex_iff list_all_iff)
  have "list_all (timer_ok T0 n0 m (clock b)) (timers (stopStatusPolling b))"
    using ok unfolding tm by (auto simp: list_all_iff)
  with nopoll assms show ?thesis
    by (simp add: poll_inv_def)
next
  case False
  with assms have sci: "statusCheckInterval b = None"
    by (simp add: poll_inv_def)
  then have "stopStatusPolling b = b"
    by (simp add: stopStatusPolling_def)
  with assms show ?thesis by simp
qed

lemma poll_inv_check:
  assumes "poll_inv T0 n0 m b"
  shows "poll_inv T0 n0 m (checkPaymentStatus env b)"
proof -
  from checkPaymentStatus_timers [of env b] show ?thesis
  proof
    assume "timers (checkPaymentStatus env b) = timers b
      \<and> statusCheckInterval (checkPaymentStatus env b) = statusCheckInterval b"
    then show ?thesis
      using assms poll_inv_cong [of "checkPaymentStatus env b" b T0 n0 m] by simp
  next
    assume "timers (checkPaymentStatus env b) = timers (stopStatusPolling b)
      \<and> statusCheckInterval (checkPaymentStatus env b) = None"
    then show ?thesis
      using poll_inv_stop [OF assms]
        poll_inv_cong [of "checkPaymentStatus env b" "stopStatusPolling b" T0 n0 m]
      by simp
  qed
qed

lemma poll_inv_window_check:
  assumes inv: "poll_inv T0 n0 m b" and own: "own \<noteq> n0" "own \<noteq> Suc n0"
  shows "poll_inv T0 n0 m (window_check env own b)"
proof (cases "window_is_closed env b")
  case False
  with inv show ?thesis by (simp add: window_check_def)
next
  case True
  let ?final = "\<lparr>timer_id = next_timer_id b, due = clock b + 2000, repeat = None,
                  callback = FinalCheck\<rparr>"
  have tm: "timers (window_check env own b) =
      filter (\<lambda>t. timer_id t \<noteq> own) (timers b) @ [?final]"
    and nx: "next_timer_id (window_check env own b) = Suc (next_timer_id b)"
    using True by (simp_all add: window_check_timers)
  have ok: "list_all (timer_ok T0 n0 m (clock b)) (timers b)"
    and nid: "n0 + 2 \<le> next_timer_id b"
    using inv by (simp_all add: poll_inv_def)
  have keep: "timer_id t \<noteq> own" if "t \<in> set (timers b)" "callback t = StatusPoll" for t
    using that ok own by (auto simp: list_all_iff timer_ok_def)
  have pol: "polling (window_check env own b) = polling b"
    unfolding polling_def tm using keep by (auto simp: list_ex_iff)
  have stp: "stop_armed n0 (window_check env own b) = stop_armed n0 b"
    unfolding stop_armed_def tm using own nid by (auto simp: list_ex_iff)
  have okf: "timer_ok T0 n0 m (clock b) ?final"
    using nid by (simp add: timer_ok_def)
  have "list_all (timer_ok T0 n0 m (clock b)) (timers (window_check env own b))"
    unfolding tm using ok okf by (auto simp: list_all_iff)
  with inv pol stp nx show ?thesis
    by (simp add: poll_inv_def)
qed

lemma poll_times_snoc_other:
  "poll_times T0 m h \<Longrightarrow> cb \<noteq> StatusPoll \<Longrightarrow> poll_times T0 m (h @ [(d, cb)])"
  by (simp add: poll_times_def)

lemma poll_times_snoc_poll:
  "poll_times T0 m h \<Longrightarrow> poll_times T0 (Suc m) (h @ [(T0 + 5000 * (int m + 1), StatusPoll)])"
  by (simp add: poll_times_def)

text \<open>A timer other than the polling interval and its timeout fires: the clock moves
  and the timer is armed again or removed.\<close>

lemma poll_inv_rearm_foreign:
  assumes inv: "poll_inv T0 n0 m b" and mem: "t \<in> set (timers b)"
    and first: "\<forall>u\<in>set (timers b). due t \<le> due u"
    and foreign: "timer_id t \<noteq> n0" "timer_id t \<noteq> Suc n0"
  shows "poll_inv T0 n0 m (b\<lparr>clock := due t, timers := rearm t (timers b), history := H\<rparr>)"
proof -
  let ?b1 = "b\<lparr>clock := due t, timers := rearm t (timers b), history := H\<rparr>"
  have ok: "\<forall>u\<in>set (timers b). timer_ok T0 n0 m (clock b) u"
    using inv by (auto simp: poll_inv_def list_all_iff)
  have far: "timer_id u \<noteq> timer_id t"
    if "u \<in> set (timers b)" "callback u = StatusPoll" for u
    using that ok foreign by (auto simp: timer_ok_def)
  have "list_all (timer_ok T0 n0 m (due t)) (rearm t (timers b))
      \<and> list_ex (\<lambda>u. callback u = StatusPoll) (rearm t (timers b)) =
          list_ex (\<lambda>u. callback u = StatusPoll) (timers b)
      \<and> list_ex (\<lambda>u. timer_id u = Suc n0) (rearm t (timers b)) =
          list_ex (\<lambda>u. timer_id u = Suc n0) (timers b)"
  proof (cases "repeat t")
    case None
    then have re: "rearm t (timers b) = filter (\<lambda>u. timer_id u \<noteq> timer_id t) (timers b)"
      by (simp add: rearm_def)
    have "list_all (timer_ok T0 n0 m (due t)) (rearm t (timers b))"
      unfolding re using ok first timer_ok_now by (auto simp: list_all_iff)
    moreover have "list_ex (\<lambda>u. timer_id u = Suc n0) (rearm t (timers b)) =
          list_ex (\<lambda>u. timer_id u = Suc n0) (timers b)"
      unfolding re using foreign by (auto simp: list_ex_iff)
    ultimately show ?thesis
      unfolding re using far by (simp add: list_ex_callback_filter)
  next
    case (Some d)
    then have re: "rearm t (timers b) =
        map (\<lambda>u. if timer_id u = timer_id t then u\<lparr>due := due u + d\<rparr> else u) (timers b)"
      by (simp add: rearm_def)
    from ok mem Some have d: "0 \<le> d"
      by (auto simp: timer_ok_def)
    have "timer_ok T0 n0 m (due t) (if timer_id u = timer_id t then u\<lparr>due := due u + d\<rparr> else u)"
      if u: "u \<in> set (timers b)" for u
    proof (cases "timer_id u = timer_id t")
      case True
      with foreign have "timer_id u \<noteq> n0" "timer_id u \<noteq> Suc n0" by simp_all
      with timer_ok_postponed [of T0 n0 m "clock b" u "due t" d] ok u first d True
      show ?thesis by simp
    next
      case False
      with timer_ok_now ok u first show ?thesis by auto
    qed
    then have "list_all (timer_ok T0 n0 m (due t)) (rearm t (timers b))"
      unfolding re by (rule list_all_mapI)
    moreover have "list_ex (\<lambda>u. timer_id u = Suc n0) (rearm t (timers b)) =
          list_ex (\<lambda>u. timer_id u = Suc n0) (timers b)"
      unfolding re by (rule list_ex_id_map) simp
    ultimately show ?thesis
      unfolding re by (simp add: list_ex_callback_map)
  qed
  with inv show ?thesis
    unfolding poll_inv_def polling_def stop_armed_def by auto
qed

lemma poll_inv_fire:
  assumes inv: "poll_inv T0 n0 m b" and pt: "poll_times T0 m h"
    and hist: "history b = h0 @ h" and fired: "fire env i b = Some b'"
  shows "\<exists>m' h'. poll_inv T0 n0 m' b' \<and> poll_times T0 m' h' \<and> history b' = h0 @ h'"
proof -
  from fired obtain t where mem: "t \<in> set (timers b)" and id: "timer_id t = i"
    and first: "\<forall>u\<in>set (timers b). due t \<le> due u"
    and b': "b' = run_callback env t
            (b\<lparr>clock := due t, timers := rearm t (timers b),
               history := history b @ [(due t, callback t)]\<rparr>)"
    by (rule fire_SomeE)
  let ?b1 = "b\<lparr>clock := due t, timers := rearm t (timers b),
               history := history b @ [(due t, callback t)]\<rparr>"
  have ok: "\<forall>u\<in>set (timers b). timer_ok T0 n0 m (clock b) u"
    and nid: "n0 + 2 \<le> next_timer_id b"
    and sci: "statusCheckInterval b = (if polling b then Some n0 else None)"
    and stp: "polling b \<Longrightarrow> stop_armed n0 b"
    and m: "m \<le> 360"
    using inv by (auto simp: poll_inv_def list_all_iff)
  have ok_t: "timer_ok T0 n0 m (clock b) t"
    using ok mem by blast
  consider (poll) "callback t = StatusPoll"
    | (stop) "callback t \<noteq> StatusPoll" "timer_id t = Suc n0"
    | (foreign) "callback t \<noteq> StatusPoll" "timer_id t \<noteq> Suc n0"
    by blast
  then show ?thesis
  proof cases
    case poll
    with ok_t have t: "t = \<lparr>timer_id = n0, due = T0 + 5000 * (int m + 1), repeat = Some 5000,
                callback = StatusPoll\<rparr>"
      by (simp add: timer_ok_def)
    have "polling b"
      using mem poll by (auto simp: polling_def list_ex_iff)
    with stp obtain s where s: "s \<in> set (timers b)" "timer_id s = Suc n0"
      by (auto simp: stop_armed_def list_ex_iff)
    with ok timer_ok_stop have "due s = T0 + 30 * 60 * 1000"
      by fastforce
    with first s t have m': "Suc m \<le> 360"
      by auto
    have re: "rearm t (timers b) =
        map (\<lambda>u. if timer_id u = n0 then u\<lparr>due := due u + 5000\<rparr> else u) (timers b)"
      by (simp add: rearm_def t)
    have ok1: "timer_ok T0 n0 (Suc m) (due t)
                 (if timer_id u = n0 then u\<lparr>due := due u + 5000\<rparr> else u)"
      if u: "u \<in> set (timers b)" for u
    proof (cases "callback u = StatusPoll")
      case True
      with ok u have "u = t"
        by (auto simp: timer_ok_def t)
      then show ?thesis
        by (simp add: t timer_ok_def)
    next
      case False
      with ok u have "timer_id u \<noteq> n0"
        using timer_ok_other_id by blast
      moreover have "timer_ok T0 n0 (Suc m) (due t) u"
        using timer_ok_later ok u first False by blast
      ultimately show ?thesis by simp
    qed
    have pol1: "polling ?b1 = polling b"
      by (simp add: polling_def re list_ex_callback_map)
    have stp1: "stop_armed n0 ?b1 = stop_armed n0 b"
      unfolding stop_armed_def by (simp add: re list_ex_id_map)
    have "list_all (timer_ok T0 n0 (Suc m) (due t)) (rearm t (timers b))"
      unfolding re using ok1 by (rule list_all_mapI)
    then have inv1: "poll_inv T0 n0 (Suc m) ?b1"
      using nid sci stp m' pol1 stp1
      by (simp add: poll_inv_def)
    have h1: "history ?b1 = h0 @ (h @ [(T0 + 5000 * (int m + 1), StatusPoll)])"
      using hist by (simp add: t)
    have "b' = checkPaymentStatus env ?b1"
      using b' poll by (simp add: run_callback_def)
    with poll_inv_check [OF inv1, of env] h1 poll_times_snoc_poll [OF pt]
    show ?thesis
      by (intro exI [of _ "Suc m"] exI [of _ "h @ [(T0 + 5000 * (int m + 1), StatusPoll)]"])
         simp
  next
    case stop
    with ok_t have t: "t = \<lparr>timer_id = Suc n0, due = T0 + 30 * 60 * 1000, repeat = None,
                callback = AutoStop\<rparr>"
      using timer_ok_stop by blast
    have re: "rearm t (timers b) = filter (\<lambda>u. timer_id u \<noteq> Suc n0) (timers b)"
      by (simp add: rearm_def t)
    have cb: "callback t = AutoStop" by (simp add: t)
    have b'': "b' = stopStatusPolling ?b1"
      using b' cb by (simp add: run_callback_def)
    have tm: "timers b' =
        (if polling b
         then filter (\<lambda>u. timer_id u \<noteq> n0) (filter (\<lambda>u. timer_id u \<noteq> Suc n0) (timers b))
         else filter (\<lambda>u. timer_id u \<noteq> Suc n0) (timers b))"
      unfolding b'' using sci by (simp add: timers_stopStatusPolling re)
    have sub: "set (timers b') \<subseteq> set (timers b)"
      unfolding tm by auto
    have nopoll: "\<not> polling b'"
    proof (cases "polling b")
      case True
      then show ?thesis
        unfolding polling_def tm using ok timer_ok_poll_id
        by (auto simp: list_ex_iff)
    next
      case False
      then show ?thesis
        unfolding polling_def tm by (auto simp: list_ex_iff)
    qed
    have okb: "\<forall>u\<in>set (timers b'). timer_ok T0 n0 m (due t) u"
    proof
      fix u assume u: "u \<in> set (timers b')"
      with sub have ub: "u \<in> set (timers b)" by blast
      from u nopoll have "callback u \<noteq> StatusPoll"
        by (auto simp: polling_def list_ex_iff)
      with timer_ok_later ok ub first show "timer_ok T0 n0 m (due t) u"
        by blast
    qed
    have "clock b' = due t" "next_timer_id b' = next_timer_id b"
      "statusCheckInterval b' = None" "history b' = h0 @ (h @ [(due t, AutoStop)])"
      unfolding b'' using hist cb by simp_all
    with okb nopoll nid m poll_times_snoc_other [OF pt, of AutoStop "due t"] show ?thesis
      by (intro exI [of _ m] exI [of _ "h @ [(due t, AutoStop)]"])
         (simp add: poll_inv_def list_all_iff)
  next
    case foreign
    from foreign(1) ok_t have n0: "timer_id t \<noteq> n0"
      using timer_ok_other_id by blast
    have inv1: "poll_inv T0 n0 m ?b1"
      using poll_inv_rearm_foreign [OF inv mem first n0 foreign(2)] .
    have h1: "history ?b1 = h0 @ (h @ [(due t, callback t)])"
      using hist by simp
    have pt1: "poll_times T0 m (h @ [(due t, callback t)])"
      using poll_times_snoc_other [OF pt foreign(1)] .
    have "poll_inv T0 n0 m b'"
      unfolding b' run_callback_def using foreign(1) inv1 n0 foreign(2)
      by (cases "callback t")
         (simp_all add: poll_inv_check poll_inv_stop poll_inv_window_check)
    moreover have "history b' = h0 @ (h @ [(due t, callback t)])"
      unfolding b' run_callback_def using h1
      by (cases "callback t") simp_all
    ultimately show ?thesis
      using pt1 by blast
  qed
qed

lemma poll_inv_run:
  assumes "poll_inv T0 n0 m b" and "poll_times T0 m h" and "history b = h0 @ h"
    and "run env sched b = Some b'"
  shows "\<exists>m' h'. poll_inv T0 n0 m' b' \<and> poll_times T0 m' h' \<and> history b' = h0 @ h'"
  using assms
proof (induction sched arbitrary: b m h)
  case Nil
  then show ?case by auto
next
  case (Cons i sched)
  from Cons.prems(4) obtain b1 where f: "fire env i b = Some b1"
    and r: "run env sched b1 = Some b'"
    by (auto split: option.splits)
  from poll_inv_fire [OF Cons.prems(1,2,3) f]
  obtain m1 h1 where "poll_inv T0 n0 m1 b1" "poll_times T0 m1 h1" "history b1 = h0 @ h1"
    by blast
  with Cons.IH r show ?case by blast
qed

lemma poll_inv_start:
  assumes wf: "wf_manager b"
    and start: "b0 = startStatusPolling b \<or> b0 = startPaymentMonitoring b"
  shows "poll_inv (clock b) (next_timer_id b) 0 b0"
proof -
  let ?T0 = "clock b" and ?n0 = "next_timer_id b"
  let ?old = "filter (\<lambda>t. Some (timer_id t) \<noteq> statusCheckInterval b) (timers b)"
  let ?poll = "\<lparr>timer_id = ?n0, due = ?T0 + 5000, repeat = Some 5000, callback = StatusPoll\<rparr>"
  let ?stop = "\<lparr>timer_id = Suc ?n0, due = ?T0 + 30 * 60 * 1000, repeat = None,
                callback = AutoStop\<rparr>"
  let ?watch = "\<lparr>timer_id = Suc (Suc ?n0), due = ?T0 + 1000, repeat = Some 1000,
                 callback = WindowCheck\<rparr>"
  have ok: "\<forall>t\<in>set (timers b). wf_timer b t"
    using wf by (simp add: wf_manager_def list_all_iff)
  have old: "timer_ok ?T0 ?n0 0 ?T0 t" if "t \<in> set ?old" for t
    using ok that by (auto simp: wf_timer_def timer_ok_def split: if_splits)
  have new: "timer_ok ?T0 ?n0 0 ?T0 ?poll" "timer_ok ?T0 ?n0 0 ?T0 ?stop"
    "timer_ok ?T0 ?n0 0 ?T0 ?watch"
    by (simp_all add: timer_ok_def)
  from start show ?thesis
  proof
    assume b0: "b0 = startStatusPolling b"
    have tm: "timers b0 = ?old @ [?poll, ?stop]"
      and fs: "next_timer_id b0 = Suc (Suc ?n0)" "clock b0 = ?T0"
        "statusCheckInterval b0 = Some ?n0"
      unfolding b0 by (simp_all add: startStatusPolling_eq)
    have "list_all (timer_ok ?T0 ?n0 0 (clock b0)) (timers b0)"
      unfolding tm fs using old new by (simp add: list_all_iff)
    moreover have "polling b0" "stop_armed ?n0 b0"
      unfolding polling_def stop_armed_def tm by (simp_all add: list_ex_iff)
    ultimately show ?thesis
      using fs by (simp add: poll_inv_def)
  next
    assume b0: "b0 = startPaymentMonitoring b"
    have tm: "timers b0 = ?old @ [?poll, ?stop, ?watch]"
      and fs: "next_timer_id b0 = Suc (Suc (Suc ?n0))" "clock b0 = ?T0"
        "statusCheckInterval b0 = Some ?n0"
      unfolding b0 by (simp_all add: startPaymentMonitoring_eq)
    have "list_all (timer_ok ?T0 ?n0 0 (clock b0)) (timers b0)"
      unfolding tm fs using old new by (simp add: list_all_iff)
    moreover have "polling b0" "stop_armed ?n0 b0"
      unfolding polling_def stop_armed_def tm by (simp_all add: list_ex_iff)
    ultimately show ?thesis
      using fs by (simp add: poll_inv_def)
  qed
qed

lemma start_fields:
  assumes "b0 = startStatusPolling b \<or> b0 = startPaymentMonitoring b"
  shows "history b0 = history b" "requests b0 = requests b" "emitted b0 = emitted b"
    "currentOrder b0 = currentOrder b"
  using assms
  by (auto simp: startStatusPolling_eq startPaymentMonitoring_eq)

subsection \<open>A session in which the order stays as it is\<close>

lemma checkPaymentStatus_quiet:
  assumes "currentOrder b = Some cur"
    and "getOrder env (clock b) = None \<or> getOrder env (clock b) = Some (ov_status cur)"
  shows "checkPaymentStatus env b = b\<lparr>requests := requests b @ [clock b]\<rparr>"
  using assms by (auto simp: checkPaymentStatus_def Let_def)

lemma quiet_fire:
  assumes quiet: "\<forall>\<tau>. getOrder env \<tau> = None \<or> getOrder env \<tau> = Some (ov_status cur)"
    and cur: "currentOrder b = Some cur"
    and hist: "history b = h0 @ h"
    and req: "requests b = r0 @ map fst (filter (\<lambda>e. snd e = StatusPoll \<or> snd e = FinalCheck) h)"
    and fired: "fire env i b = Some b'"
  shows "currentOrder b' = Some cur
       \<and> filter (\<lambda>e. e \<noteq> ''payment_window_closed'') (emitted b') =
           filter (\<lambda>e. e \<noteq> ''payment_window_closed'') (emitted b)
       \<and> (\<exists>h'. history b' = h0 @ h'
              \<and> requests b' =
                  r0 @ map fst (filter (\<lambda>e. snd e = StatusPoll \<or> snd e = FinalCheck) h'))"
proof -
  from fired obtain t where
    b': "b' = run_callback env t
            (b\<lparr>clock := due t, timers := rearm t (timers b),
               history := history b @ [(due t, callback t)]\<rparr>)"
    by (rule fire_SomeE)
  let ?b1 = "b\<lparr>clock := due t, timers := rearm t (timers b),
               history := history b @ [(due t, callback t)]\<rparr>"
  have chk: "checkPaymentStatus env ?b1 = ?b1\<lparr>requests := requests b @ [due t]\<rparr>"
    using checkPaymentStatus_quiet [of ?b1 cur env] cur quiet by simp
  show ?thesis
  proof (cases "callback t")
    case StatusPoll
    with b' chk have "b' = ?b1\<lparr>requests := requests b @ [due t]\<rparr>"
      by (simp add: run_callback_def)
    with cur hist req StatusPoll show ?thesis
      by (intro conjI exI [of _ "h @ [(due t, StatusPoll)]"]) simp_all
  next
    case FinalCheck
    with b' chk have "b' = ?b1\<lparr>requests := requests b @ [due t]\<rparr>"
      by (simp add: run_callback_def)
    with cur hist req FinalCheck show ?thesis
      by (intro conjI exI [of _ "h @ [(due t, FinalCheck)]"]) simp_all
  next
    case AutoStop
    with b' have b'': "b' = stopStatusPolling ?b1"
      by (simp add: run_callback_def)
    with cur hist req AutoStop show ?thesis
      by (intro conjI exI [of _ "h @ [(due t, AutoStop)]"]) simp_all
  next
    case WindowCheck
    with b' have b'': "b' = window_check env (timer_id t) ?b1"
      by (simp add: run_callback_def)
    have em: "filter (\<lambda>e. e \<noteq> ''payment_window_closed'') (emitted b') =
           filter (\<lambda>e. e \<noteq> ''payment_window_closed'') (emitted b)"
      unfolding b''
      by (simp add: window_check_def Let_def setTimeout_def clearInterval_def
            triggerPaymentCallbacks_def)
    with b'' cur hist req WindowCheck show ?thesis
      by (intro conjI exI [of _ "h @ [(due t, WindowCheck)]"]) simp_all
  qed
qed

lemma quiet_run:
  assumes "\<forall>\<tau>. getOrder env \<tau> = None \<or> getOrder env \<tau> = Some (ov_status cur)"
    and "currentOrder b = Some cur"
    and "history b = h0 @ h"
    and "requests b = r0 @ map fst (filter (\<lambda>e. snd e = StatusPoll \<or> snd e = FinalCheck) h)"
    and "run env sched b = Some b'"
  shows "currentOrder b' = Some cur
       \<and> filter (\<lambda>e. e \<noteq> ''payment_window_closed'') (emitted b') =
           filter (\<lambda>e. e \<noteq> ''payment_window_closed'') (emitted b)
       \<and> (\<exists>h'. history b' = h0 @ h'
              \<and> requests b' =
                  r0 @ map fst (filter (\<lambda>e. snd e = StatusPoll \<or> snd e = FinalCheck) h'))"
  using assms(2-)
proof (induction sched arbitrary: b h)
  case Nil
  then show ?case by auto
next
  case (Cons i sched)
  from Cons.prems(4) obtain b1 where f: "fire env i b = Some b1"
    and r: "run env sched b1 = Some b'"
    by (auto split: option.splits)
  from quiet_fire [OF assms(1) Cons.prems(1,2,3) f]
  obtain h1 where "currentOrder b1 = Some cur"
    and e1: "filter (\<lambda>e. e \<noteq> ''payment_window_closed'') (emitted b1) =
           filter (\<lambda>e. e \<noteq> ''payment_window_closed'') (emitted b)"
    and "history b1 = h0 @ h1"
    and "requests b1 = r0 @ map fst (filter (\<lambda>e. snd e = StatusPoll \<or> snd e = FinalCheck) h1)"
    by blast
  from Cons.IH [OF this(1,3,4) r] e1 show ?case by simp
qed

text \<open>Without a current order no timer issues a request.\<close>

lemma no_order_fire:
  assumes cur: "currentOrder b = None" and fired: "fire env i b = Some b'"
  shows "currentOrder b' = None \<and> requests b' = requests b"
proof -
  from fired obtain t where
    b': "b' = run_callback env t
            (b\<lparr>clock := due t, timers := rearm t (timers b),
               history := history b @ [(due t, callback t)]\<rparr>)"
    by (rule fire_SomeE)
  show ?thesis
    unfolding b' run_callback_def using cur
    by (cases "callback t") (simp_all add: checkPaymentStatus_def)
qed

lemma no_order_run:
  assumes "currentOrder b = None" and "run env sched b = Some b'"
  shows "currentOrder b' = None \<and> requests b' = requests b"
  using assms
proof (induction sched arbitrary: b)
  case Nil
  then show ?case by simp
next
  case (Cons i sched)
  from Cons.prems(2) obtain b1 where f: "fire env i b = Some b1"
    and r: "run env sched b1 = Some b'"
    by (auto split: option.splits)
  from no_order_fire [OF Cons.prems(1) f] Cons.IH [OF _ r] show ?case by simp
qed

lemma find_unique:
  assumes "x \<in> set xs" and "P x" and "\<And>y. y \<in> set xs \<Longrightarrow> P y \<Longrightarrow> y = x"
  shows "find P xs = Some x"
proof (cases "find P xs")
  case None
  with assms(1,2) show ?thesis by (auto simp: find_None_iff)
next
  case (Some y)
  then have "y \<in> set xs" "P y" by (auto simp: find_Some_iff)
  with assms(3) Some show ?thesis by auto
qed

lemma timer_ok_poll:
  "timer_ok T0 n0 m now t \<Longrightarrow> timer_id t = n0 \<Longrightarrow>
   t = \<lparr>timer_id = n0, due = T0 + 5000 * (int m + 1), repeat = Some 5000,
         callback = StatusPoll\<rparr>"
  by (cases "callback t = StatusPoll") (simp_all add: timer_ok_def)

subsection \<open>Polling interval and ceiling\<close>

text \<open>
  C9, amended.  Let \<open>startStatusPolling\<close> (or \<open>startPaymentMonitoring\<close>, which calls it) run
  at time \<open>T0\<close> on a manager in any state that the page can be in between two callbacks
  (new, or used for earlier payments, with or without a current order), and let timers
  fire afterwards in any admissible order, under any behaviour of the server, the window
  and the user.  Write \<open>n0\<close> for the next timer id at the start.
  \<^item> The start arms the polling interval under id \<open>n0\<close>, first due at \<open>T0 + 5 s\<close> with a
    period of 5 s, stores \<open>n0\<close> in \<open>statusCheckInterval\<close>, arms the timeout under id
    \<open>n0 + 1\<close>, due at \<open>T0 + 30 min\<close>, and leaves no other polling interval armed.
  \<^item> In every state reached, the polling callback has fired at \<open>T0 + 5 s\<close>, \<open>T0 + 10 s\<close>,
    ... without a gap, \<open>m\<close> times with \<open>m \<le> 360\<close>.  While the interval is armed, the clock
    has not passed \<open>T0 + 30 min\<close>, the next firing is due at \<open>T0 + 5 (m + 1) s\<close>, nothing
    but an earlier timer or a page navigation keeps it from firing, and when it fires
    it runs \<open>checkPaymentStatus\<close>, which issues one \<open>getOrder\<close> request at that time if
    the manager holds a current order and none otherwise.
  \<^item> When the timeout fires, at \<open>T0 + 30 min\<close>, it clears the interval and
    \<open>statusCheckInterval\<close> whatever the order's status, and emits nothing, requests
    nothing and keeps the current order; once it is no longer armed the interval is not
    armed either.
  \<^item> If the manager holds a pending order and the server only ever reports it pending
    (or fails to answer), then in every state reached the manager still holds that order,
    no event but \<open>payment_window_closed\<close> was emitted (in particular no \<open>payment_failed\<close>),
    every firing of the polling callback and of a final check issued one request, and
    \<open>getCurrentPaymentStatus\<close> reports \<open>status = pending\<close>, with \<open>isPolling = false\<close> once
    \<open>statusCheckInterval\<close> is cleared.
  \<^item> If the manager holds no current order, no request is issued at all and
    \<open>getCurrentPaymentStatus\<close> reports nothing.

  Only timers drive the period: \<open>handleVisibilityChange\<close>, which could start a new one, is
  registered by \<open>init()\<close> alone, and the application constructs the manager without
  calling it.
\<close>

theorem status_polling_interval_and_ceiling:
  assumes wf: "wf_manager b_init"
    and start: "b0 = startStatusPolling b_init \<or> b0 = startPaymentMonitoring b_init"
    and run: "run env sched b0 = Some b"
  shows "statusCheckInterval b0 = Some (next_timer_id b_init)
       \<and> find (\<lambda>t. timer_id t = next_timer_id b_init) (timers b0) =
           Some \<lparr>timer_id = next_timer_id b_init, due = clock b_init + 5000,
                 repeat = Some 5000, callback = StatusPoll\<rparr>
       \<and> find (\<lambda>t. timer_id t = Suc (next_timer_id b_init)) (timers b0) =
           Some \<lparr>timer_id = Suc (next_timer_id b_init), due = clock b_init + 30 * 60 * 1000,
                 repeat = None, callback = AutoStop\<rparr>
       \<and> \<not> list_ex (\<lambda>t. callback t = StatusPoll \<and> timer_id t \<noteq> next_timer_id b_init)
             (timers b0)
       \<and> (\<exists>m h. m \<le> 360 \<and> history b = history b_init @ h
            \<and> map fst (filter (\<lambda>e. snd e = StatusPoll) h) =
                map (\<lambda>k. clock b_init + 5000 * int k) [1..<Suc m]
            \<and> (list_ex (\<lambda>t. callback t = StatusPoll) (timers b) \<longrightarrow>
                 clock b \<le> clock b_init + 30 * 60 * 1000
                 \<and> statusCheckInterval b = Some (next_timer_id b_init)
                 \<and> find (\<lambda>t. timer_id t = next_timer_id b_init) (timers b) =
                     Some \<lparr>timer_id = next_timer_id b_init,
                           due = clock b_init + 5000 * (int m + 1),
                           repeat = Some 5000, callback = StatusPoll\<rparr>
                 \<and> (location_href b = None
                     \<and> list_all (\<lambda>u. clock b_init + 5000 * (int m + 1) \<le> due u) (timers b)
                     \<longrightarrow> fire env (next_timer_id b_init) b \<noteq> None)
                 \<and> (\<forall>b'. fire env (next_timer_id b_init) b = Some b' \<longrightarrow>
                       clock b' = clock b_init + 5000 * (int m + 1)
                       \<and> history b' = history b @
                           [(clock b_init + 5000 * (int m + 1), StatusPoll)]
                       \<and> requests b' =
                           (if currentOrder b = None then requests b
                            else requests b @ [clock b_init + 5000 * (int m + 1)]))))
       \<and> (\<forall>b'. fire env (Suc (next_timer_id b_init)) b = Some b' \<longrightarrow>
             clock b' = clock b_init + 30 * 60 * 1000
             \<and> statusCheckInterval b' = None
             \<and> \<not> list_ex (\<lambda>t. callback t = StatusPoll) (timers b')
             \<and> emitted b' = emitted b \<and> requests b' = requests b
             \<and> currentOrder b' = currentOrder b)
       \<and> (\<not> list_ex (\<lambda>t. timer_id t = Suc (next_timer_id b_init)) (timers b) \<longrightarrow>
            statusCheckInterval b = None
            \<and> \<not> list_ex (\<lambda>t. callback t = StatusPoll) (timers b))
       \<and> (\<forall>cur. currentOrder b_init = Some cur \<and> ov_status cur = Pending
              \<and> (\<forall>\<tau>. getOrder env \<tau> = None \<or> getOrder env \<tau> = Some Pending) \<longrightarrow>
            currentOrder b = Some cur
            \<and> filter (\<lambda>e. e \<noteq> ''payment_window_closed'') (emitted b) =
                filter (\<lambda>e. e \<noteq> ''payment_window_closed'') (emitted b_init)
            \<and> (\<exists>h. history b = history b_init @ h
                   \<and> requests b = requests b_init @
                       map fst (filter (\<lambda>e. snd e = StatusPoll \<or> snd e = FinalCheck) h))
            \<and> getCurrentPaymentStatus b = Some (Pending, statusCheckInterval b \<noteq> None))
       \<and> (currentOrder b_init = None \<longrightarrow>
            currentOrder b = None \<and> requests b = requests b_init
            \<and> getCurrentPaymentStatus b = None)"
proof -
  let ?T0 = "clock b_init" and ?n0 = "next_timer_id b_init"
  let ?old = "filter (\<lambda>t. Some (timer_id t) \<noteq> statusCheckInterval b_init) (timers b_init)"
  let ?poll = "\<lambda>d. \<lparr>timer_id = ?n0, due = d, repeat = Some 5000, callback = StatusPoll\<rparr>"
  let ?stop = "\<lparr>timer_id = Suc ?n0, due = ?T0 + 30 * 60 * 1000, repeat = None,
                callback = AutoStop\<rparr>"
  have inv0: "poll_inv ?T0 ?n0 0 b0"
    using poll_inv_start [OF wf start] .
  have pt0: "poll_times ?T0 0 []"
    by (simp add: poll_times_def)
  have h0: "history b0 = history b_init @ []"
    using start_fields(1) [OF start] by simp
  have ok0: "\<forall>u\<in>set (timers b0). timer_ok ?T0 ?n0 0 (clock b0) u"
    using inv0 by (auto simp: poll_inv_def list_all_iff)
  have mem0: "?poll (?T0 + 5000) \<in> set (timers b0)" "?stop \<in> set (timers b0)"
    and sci0: "statusCheckInterval b0 = Some ?n0"
    using start by (auto simp: startStatusPolling_eq startPaymentMonitoring_eq)
  have part0: "statusCheckInterval b0 = Some ?n0
       \<and> find (\<lambda>t. timer_id t = ?n0) (timers b0) = Some (?poll (?T0 + 5000))
       \<and> find (\<lambda>t. timer_id t = Suc ?n0) (timers b0) = Some ?stop
       \<and> \<not> list_ex (\<lambda>t. callback t = StatusPoll \<and> timer_id t \<noteq> ?n0) (timers b0)"
  proof (intro conjI)
    show "statusCheckInterval b0 = Some ?n0" by (rule sci0)
    show "find (\<lambda>t. timer_id t = ?n0) (timers b0) = Some (?poll (?T0 + 5000))"
    proof (rule find_unique [OF mem0(1)])
      fix y assume y: "y \<in> set (timers b0)" "timer_id y = ?n0"
      with ok0 have "timer_ok ?T0 ?n0 0 (clock b0) y" by blast
      from timer_ok_poll [OF this y(2)] show "y = ?poll (?T0 + 5000)"
        by simp
    qed simp
    show "find (\<lambda>t. timer_id t = Suc ?n0) (timers b0) = Some ?stop"
    proof (rule find_unique [OF mem0(2)])
      fix y assume y: "y \<in> set (timers b0)" "timer_id y = Suc ?n0"
      with ok0 have "timer_ok ?T0 ?n0 0 (clock b0) y" by blast
      from timer_ok_stop [OF this y(2)] show "y = ?stop" .
    qed simp
    have "timer_id t = ?n0" if "t \<in> set (timers b0)" "callback t = StatusPoll" for t
      using ok0 that timer_ok_poll_id by blast
    then show "\<not> list_ex (\<lambda>t. callback t = StatusPoll \<and> timer_id t \<noteq> ?n0) (timers b0)"
      by (auto simp: list_ex_iff)
  qed
  from poll_inv_run [OF inv0 pt0 h0 run]
  obtain m h where inv: "poll_inv ?T0 ?n0 m b" and pt: "poll_times ?T0 m h"
    and hist: "history b = history b_init @ h"
    by blast
  have ok: "\<forall>u\<in>set (timers b). timer_ok ?T0 ?n0 m (clock b) u"
    and sci: "statusCheckInterval b = (if polling b then Some ?n0 else None)"
    and stp: "polling b \<Longrightarrow> stop_armed ?n0 b"
    and m: "m \<le> 360"
    using inv by (auto simp: poll_inv_def list_all_iff)
  have part2: "clock b \<le> ?T0 + 30 * 60 * 1000
       \<and> statusCheckInterval b = Some ?n0
       \<and> find (\<lambda>t. timer_id t = ?n0) (timers b) = Some (?poll (?T0 + 5000 * (int m + 1)))
       \<and> (location_href b = None
           \<and> list_all (\<lambda>u. ?T0 + 5000 * (int m + 1) \<le> due u) (timers b)
           \<longrightarrow> fire env ?n0 b \<noteq> None)
       \<and> (\<forall>b'. fire env ?n0 b = Some b' \<longrightarrow>
             clock b' = ?T0 + 5000 * (int m + 1)
             \<and> history b' = history b @ [(?T0 + 5000 * (int m + 1), StatusPoll)]
             \<and> requests b' =
                 (if currentOrder b = None then requests b
                  else requests b @ [?T0 + 5000 * (int m + 1)]))"
    if "list_ex (\<lambda>t. callback t = StatusPoll) (timers b)"
  proof -
    from that have p: "polling b" by (simp add: polling_def)
    with stp obtain s where s: "s \<in> set (timers b)" "timer_id s = Suc ?n0"
      by (auto simp: stop_armed_def list_ex_iff)
    with ok have oks: "timer_ok ?T0 ?n0 m (clock b) s" by blast
    then have "clock b \<le> due s" by (simp add: timer_ok_def)
    with timer_ok_stop [OF oks s(2)]
    have c: "clock b \<le> ?T0 + 30 * 60 * 1000"
      by simp
    from p obtain t where t: "t \<in> set (timers b)" "callback t = StatusPoll"
      by (auto simp: polling_def list_ex_iff)
    with ok have okt: "timer_ok ?T0 ?n0 m (clock b) t" by blast
    from timer_ok_poll [OF okt timer_ok_poll_id [OF okt t(2)]]
    have t': "t = ?poll (?T0 + 5000 * (int m + 1))" .
    have f: "find (\<lambda>t. timer_id t = ?n0) (timers b) = Some (?poll (?T0 + 5000 * (int m + 1)))"
    proof (rule find_unique)
      show "?poll (?T0 + 5000 * (int m + 1)) \<in> set (timers b)"
        using t t' by simp
      fix y assume y: "y \<in> set (timers b)" "timer_id y = ?n0"
      with ok have "timer_ok ?T0 ?n0 m (clock b) y" by blast
      from timer_ok_poll [OF this y(2)] show "y = ?poll (?T0 + 5000 * (int m + 1))" .
    qed simp
    have en: "fire env ?n0 b \<noteq> None"
      if "location_href b = None \<and> list_all (\<lambda>u. ?T0 + 5000 * (int m + 1) \<le> due u) (timers b)"
      using that f by (simp add: fire_def)
    have st: "clock b' = ?T0 + 5000 * (int m + 1)
             \<and> history b' = history b @ [(?T0 + 5000 * (int m + 1), StatusPoll)]
             \<and> requests b' =
                 (if currentOrder b = None then requests b
                  else requests b @ [?T0 + 5000 * (int m + 1)])"
      if "fire env ?n0 b = Some b'" for b'
    proof -
      from that f have "b' = checkPaymentStatus env
            (b\<lparr>clock := ?T0 + 5000 * (int m + 1),
               timers := rearm (?poll (?T0 + 5000 * (int m + 1))) (timers b),
               history := history b @ [(?T0 + 5000 * (int m + 1), StatusPoll)]\<rparr>)"
        by (auto simp: fire_def run_callback_def split: if_splits)
      then show ?thesis
        by (simp add: checkPaymentStatus_requests)
    qed
    have s: "statusCheckInterval b = Some ?n0"
      using p sci by simp
    from c s f en st show ?thesis by blast
  qed
  have part1: "\<exists>m h. m \<le> 360 \<and> history b = history b_init @ h
            \<and> map fst (filter (\<lambda>e. snd e = StatusPoll) h) =
                map (\<lambda>k. ?T0 + 5000 * int k) [1..<Suc m]
            \<and> (list_ex (\<lambda>t. callback t = StatusPoll) (timers b) \<longrightarrow>
                 clock b \<le> ?T0 + 30 * 60 * 1000
                 \<and> statusCheckInterval b = Some ?n0
                 \<and> find (\<lambda>t. timer_id t = ?n0) (timers b) =
                     Some (?poll (?T0 + 5000 * (int m + 1)))
                 \<and> (location_href b = None
                     \<and> list_all (\<lambda>u. ?T0 + 5000 * (int m + 1) \<le> due u) (timers b)
                     \<longrightarrow> fire env ?n0 b \<noteq> None)
                 \<and> (\<forall>b'. fire env ?n0 b = Some b' \<longrightarrow>
                       clock b' = ?T0 + 5000 * (int m + 1)
                       \<and> history b' = history b @ [(?T0 + 5000 * (int m + 1), StatusPoll)]
                       \<and> requests b' =
                           (if currentOrder b = None then requests b
                            else requests b @ [?T0 + 5000 * (int m + 1)])))"
  proof (intro exI [of _ m] exI [of _ h] conjI impI)
    show "m \<le> 360" by (rule m)
    show "history b = history b_init @ h" by (rule hist)
    show "map fst (filter (\<lambda>e. snd e = StatusPoll) h) =
                map (\<lambda>k. ?T0 + 5000 * int k) [1..<Suc m]"
      using pt by (simp add: poll_times_def)
  qed (use part2 in blast)+
  have part3: "statusCheckInterval b = None
            \<and> \<not> list_ex (\<lambda>t. callback t = StatusPoll) (timers b)"
    if "\<not> list_ex (\<lambda>t. timer_id t = Suc ?n0) (timers b)"
    using that stp sci by (auto simp: polling_def stop_armed_def)
  have part5: "clock b' = ?T0 + 30 * 60 * 1000
             \<and> statusCheckInterval b' = None
             \<and> \<not> list_ex (\<lambda>t. callback t = StatusPoll) (timers b')
             \<and> emitted b' = emitted b \<and> requests b' = requests b
             \<and> currentOrder b' = currentOrder b"
    if f: "fire env (Suc ?n0) b = Some b'" for b'
  proof -
    from f obtain t where t: "t \<in> set (timers b)" "timer_id t = Suc ?n0"
      and b': "b' = run_callback env t
            (b\<lparr>clock := due t, timers := rearm t (timers b),
               history := history b @ [(due t, callback t)]\<rparr>)"
      by (rule fire_SomeE)
    from t ok have "timer_ok ?T0 ?n0 m (clock b) t" by blast
    from timer_ok_stop [OF this t(2)] have t': "t = ?stop" .
    have b'': "b' = stopStatusPolling
            (b\<lparr>clock := ?T0 + 30 * 60 * 1000, timers := rearm ?stop (timers b),
               history := history b @ [(?T0 + 30 * 60 * 1000, AutoStop)]\<rparr>)"
      using b' by (simp add: t' run_callback_def)
    from poll_inv_fire [OF inv pt hist f]
    obtain m' where "poll_inv ?T0 ?n0 m' b'" by blast
    then have "statusCheckInterval b' = (if polling b' then Some ?n0 else None)"
      by (simp add: poll_inv_def)
    moreover have "statusCheckInterval b' = None"
      unfolding b'' by simp
    ultimately have "\<not> polling b'"
      by (simp split: if_splits)
    then show ?thesis
      unfolding b'' by (simp add: polling_def)
  qed
  have part4: "currentOrder b = Some cur
            \<and> filter (\<lambda>e. e \<noteq> ''payment_window_closed'') (emitted b) =
                filter (\<lambda>e. e \<noteq> ''payment_window_closed'') (emitted b_init)
            \<and> (\<exists>h. history b = history b_init @ h
                   \<and> requests b = requests b_init @
                       map fst (filter (\<lambda>e. snd e = StatusPoll \<or> snd e = FinalCheck) h))
            \<and> getCurrentPaymentStatus b = Some (Pending, statusCheckInterval b \<noteq> None)"
    if c: "currentOrder b_init = Some cur" and p: "ov_status cur = Pending"
      and q: "\<forall>\<tau>. getOrder env \<tau> = None \<or> getOrder env \<tau> = Some Pending"
    for cur
  proof -
    have q': "\<forall>\<tau>. getOrder env \<tau> = None \<or> getOrder env \<tau> = Some (ov_status cur)"
      using q p by simp
    have c0: "currentOrder b0 = Some cur"
      using start_fields(4) [OF start] c by simp
    have r0: "requests b0 = requests b_init @
        map fst (filter (\<lambda>e. snd e = StatusPoll \<or> snd e = FinalCheck) [])"
      using start_fields(2) [OF start] by simp
    from quiet_run [OF q' c0 h0 r0 run] start_fields(3) [OF start]
    have main: "currentOrder b = Some cur
       \<and> filter (\<lambda>e. e \<noteq> ''payment_window_closed'') (emitted b) =
           filter (\<lambda>e. e \<noteq> ''payment_window_closed'') (emitted b_init)
       \<and> (\<exists>h'. history b = history b_init @ h'
              \<and> requests b = requests b_init @
                  map fst (filter (\<lambda>e. snd e = StatusPoll \<or> snd e = FinalCheck) h'))"
      by simp
    with p show ?thesis
      by (simp add: getCurrentPaymentStatus_def)
  qed
  have part6: "currentOrder b = None \<and> requests b = requests b_init
            \<and> getCurrentPaymentStatus b = None"
    if c: "currentOrder b_init = None"
  proof -
    have "currentOrder b0 = None"
      using start_fields(4) [OF start] c by simp
    from no_order_run [OF this run] start_fields(2) [OF start] show ?thesis
      by (simp add: getCurrentPaymentStatus_def)
  qed
  from part0 have p0: "statusCheckInterval b0 = Some ?n0"
    "find (\<lambda>t. timer_id t = ?n0) (timers b0) = Some (?poll (?T0 + 5000))"
    "find (\<lambda>t. timer_id t = Suc ?n0) (timers b0) = Some ?stop"
    "\<not> list_ex (\<lambda>t. callback t = StatusPoll \<and> timer_id t \<noteq> ?n0) (timers b0)"
    by simp_all
  show ?thesis
  proof (intro conjI)
    show "\<forall>b'. fire env (Suc ?n0) b = Some b' \<longrightarrow>
             clock b' = ?T0 + 30 * 60 * 1000
             \<and> statusCheckInterval b' = None
             \<and> \<not> list_ex (\<lambda>t. callback t = StatusPoll) (timers b')
             \<and> emitted b' = emitted b \<and> requests b' = requests b
             \<and> currentOrder b' = currentOrder b"
      using part5 by blast
    show "\<not> list_ex (\<lambda>t. timer_id t = Suc ?n0) (timers b) \<longrightarrow>
            statusCheckInterval b = None
            \<and> \<not> list_ex (\<lambda>t. callback t = StatusPoll) (timers b)"
      using part3 by blast
    show "\<forall>cur. currentOrder b_init = Some cur \<and> ov_status cur = Pending
              \<and> (\<forall>\<tau>. getOrder env \<tau> = None \<or> getOrder env \<tau> = Some Pending) \<longrightarrow>
            currentOrder b = Some cur
            \<and> filter (\<lambda>e. e \<noteq> ''payment_window_closed'') (emitted b) =
                filter (\<lambda>e. e \<noteq> ''payment_window_closed'') (emitted b_init)
            \<and> (\<exists>h. history b = history b_init @ h
                   \<and> requests b = requests b_init @
                       map fst (filter (\<lambda>e. snd e = StatusPoll \<or> snd e = FinalCheck) h))
            \<and> getCurrentPaymentStatus b = Some (Pending, statusCheckInterval b \<noteq> None)"
      using part4 by blast
    show "currentOrder b_init = None \<longrightarrow>
            currentOrder b = None \<and> requests b = requests b_init
            \<and> getCurrentPaymentStatus b = None"
      using part6 by blast
  qed (rule p0 part1)+
qed

lemma run_append:
  "run env (xs @ ys) b = (case run env xs b of None \<Rightarrow> None | Some b' \<Rightarrow> run env ys b')"
  by (induction xs arbitrary: b) (auto split: option.splits)

lemma polled_0: "startStatusPolling window_just_opened = polled 0"
  by (simp add: startStatusPolling_eq window_just_opened_def polled_def)

lemma polled_Suc:
  assumes "k < 360"
  shows "fire closes_early_stays_pending 1 (polled k) = Some (polled (Suc k))"
  using assms
  by (simp add: fire_def polled_def rearm_def run_callback_def checkPaymentStatus_def
        closes_early_stays_pending_def Let_def)

lemma polled_run:
  "k \<le> 360 \<Longrightarrow> run closes_early_stays_pending (replicate k 1) (polled 0) = Some (polled k)"
proof (induction k)
  case 0
  then show ?case by simp
next
  case (Suc k)
  then have IH: "run closes_early_stays_pending (replicate k 1) (polled 0) = Some (polled k)"
    and k: "k < 360"
    by simp_all
  have split: "replicate (Suc k) (1::nat) = replicate k 1 @ [1]"
    by (simp add: replicate_append_same)
  show ?case
    unfolding split run_append IH using polled_Suc [OF k] by simp
qed

lemma polled_stop:
  "fire closes_early_stays_pending 2 (polled 360) =
     Some ((polled 360)\<lparr>clock := 1800000, timers := [], statusCheckInterval := None,
             history := history (polled 360) @ [(1800000, AutoStop)]\<rparr>)"
  by (simp add: fire_def polled_def rearm_def run_callback_def stopStatusPolling_def
        clearInterval_def del: upt_Suc)

lemma polled_ceiling:
  "run closes_early_stays_pending (replicate 360 1 @ [2]) (startStatusPolling window_just_opened) =
     Some ((polled 360)\<lparr>clock := 1800000, timers := [], statusCheckInterval := None,
             history := history (polled 360) @ [(1800000, AutoStop)]\<rparr>)"
proof -
  have polls: "run closes_early_stays_pending (replicate 360 1) (polled 0) = Some (polled 360)"
    using polled_run [of 360] by simp
  show ?thesis
    unfolding polled_0 run_append polls using polled_stop by simp
qed

text \<open>The manager of \<open>second_purchase\<close> is the one the first purchase leaves behind.\<close>

lemma second_purchase_reached:
  "map_option
     (\<lambda>b. b\<lparr>clock := 1798000, currentOrder := Some \<lparr>ov_id = 12, ov_status = Pending\<rparr>,
            paymentWindow := Some False, emitted := emitted b @ [''order_created'']\<rparr>)
     (run paid_at_once [3, 3, 3, 3, 1, 3, 4] (startPaymentMonitoring window_just_opened)) =
   Some second_purchase"
  by code_simp

text \<open>
  C9 as stated fails: the cart checkout starts the monitoring on a manager without a
  current order.  The window watcher and the final check run, the polling callback runs
  at 5000 ms and at 10000 ms, and no status request is issued: \<open>checkPaymentStatus\<close>
  returns at its guard \<open>if (!this.currentOrder) return null\<close>, and
  \<open>getCurrentPaymentStatus\<close> reports no order, pending or other.
\<close>

theorem status_check_without_order_counterexample:
  "run closes_early_stays_pending [3, 4, 1, 1]
     (startPaymentMonitoring cart_checkout_window_opened) =
     Some \<lparr>currentOrder = None, paymentWindow = Some False, statusCheckInterval = Some 1,
           emitted = [''payment_window_closed''], location_href = None, clock = 10000,
           timers = [\<lparr>timer_id = 1, due = 15000, repeat = Some 5000, callback = StatusPoll\<rparr>,
                     \<lparr>timer_id = 2, due = 1800000, repeat = None, callback = AutoStop\<rparr>],
           next_timer_id = 5,
           history = [(1000, WindowCheck), (3000, FinalCheck), (5000, StatusPoll),
                      (10000, StatusPoll)],
           requests = []\<rparr>
   \<and> getCurrentPaymentStatus
       \<lparr>currentOrder = None, paymentWindow = Some False, statusCheckInterval = Some 1,
        emitted = [''payment_window_closed''], location_href = None, clock = 10000,
        timers = [\<lparr>timer_id = 1, due = 15000, repeat = Some 5000, callback = StatusPoll\<rparr>,
                  \<lparr>timer_id = 2, due = 1800000, repeat = None, callback = AutoStop\<rparr>],
        next_timer_id = 5,
        history = [(1000, WindowCheck), (3000, FinalCheck), (5000, StatusPoll),
                   (10000, StatusPoll)],
        requests = []\<rparr> = None"
  by code_simp

text \<open>
  The amended C9 at two polling periods.  In the first the order is still pending when
  the 30 minutes are over: 360 polls with a request each, then the timeout, and the
  manager reports the order as pending with polling off.  The second is started on the
  manager of \<open>second_purchase\<close>, which satisfies \<open>wf_manager\<close> with the timeout of the first
  purchase still armed: the window watcher (id 7) and that timeout (id 2) fire.
\<close>

theorem status_polling_interval_and_ceiling_witness:
  "wf_manager window_just_opened
   \<and> run closes_early_stays_pending (replicate 360 1 @ [2])
       (startStatusPolling window_just_opened) =
     Some ((polled 360)\<lparr>clock := 1800000, timers := [], statusCheckInterval := None,
             history := history (polled 360) @ [(1800000, AutoStop)]\<rparr>)
   \<and> getCurrentPaymentStatus
       ((polled 360)\<lparr>clock := 1800000, timers := [], statusCheckInterval := None,
             history := history (polled 360) @ [(1800000, AutoStop)]\<rparr>) =
     Some (Pending, False)
   \<and> emitted (polled 360) = [''order_created'']
   \<and> requests (polled 360) = map (\<lambda>j. 5000 * int j) [1..<361]
   \<and> wf_manager second_purchase
   \<and> find (\<lambda>t. timer_id t = 5) (timers (startPaymentMonitoring second_purchase)) =
       Some \<lparr>timer_id = 5, due = 1803000, repeat = Some 5000, callback = StatusPoll\<rparr>
   \<and> find (\<lambda>t. timer_id t = 6) (timers (startPaymentMonitoring second_purchase)) =
       Some \<lparr>timer_id = 6, due = 3598000, repeat = None, callback = AutoStop\<rparr>
   \<and> map_option getCurrentPaymentStatus
       (run closes_early_stays_pending [7, 2] (startPaymentMonitoring second_purchase)) =
     Some (Some (Pending, False))"
proof -
  have wf1: "wf_manager window_just_opened"
    by (simp add: wf_manager_def window_just_opened_def)
  have st1: "startStatusPolling window_just_opened = startStatusPolling window_just_opened
      \<or> startStatusPolling window_just_opened = startPaymentMonitoring window_just_opened"
    by simp
  have v: "getCurrentPaymentStatus
       ((polled 360)\<lparr>clock := 1800000, timers := [], statusCheckInterval := None,
             history := history (polled 360) @ [(1800000, AutoStop)]\<rparr>) =
     Some (Pending, False)
   \<and> emitted (polled 360) = [''order_created'']
   \<and> requests (polled 360) = map (\<lambda>j. 5000 * int j) [1..<361]"
    by (simp add: polled_def getCurrentPaymentStatus_def del: upt_Suc)
  have wf2: "wf_manager second_purchase"
    by code_simp
  have st2: "startPaymentMonitoring second_purchase = startStatusPolling second_purchase
      \<or> startPaymentMonitoring second_purchase = startPaymentMonitoring second_purchase"
    by simp
  have run2: "run closes_early_stays_pending [7, 2] (startPaymentMonitoring second_purchase) =
     Some \<lparr>currentOrder = Some \<lparr>ov_id = 12, ov_status = Pending\<rparr>,
           paymentWindow = Some False, statusCheckInterval = None,
           emitted = [''order_created'', ''payment_success'', ''status_changed'',
                      ''payment_window_closed'', ''order_created'',
                      ''payment_window_closed''],
           location_href = None, clock = 1800000,
           timers = [\<lparr>timer_id = 6, due = 3598000, repeat = None, callback = AutoStop\<rparr>,
                     \<lparr>timer_id = 8, due = 1801000, repeat = None, callback = FinalCheck\<rparr>],
           next_timer_id = 9,
           history = [(1000, WindowCheck), (2000, WindowCheck), (3000, WindowCheck),
                      (4000, WindowCheck), (5000, StatusPoll), (5000, WindowCheck),
                      (7000, FinalCheck), (1799000, WindowCheck), (1800000, AutoStop)],
           requests = [5000]\<rparr>"
    by code_simp
  have n2: "next_timer_id second_purchase = 5" "clock second_purchase = 1798000"
    by (simp_all add: second_purchase_def)
  from status_polling_interval_and_ceiling [OF wf1 st1 polled_ceiling]
    status_polling_interval_and_ceiling [OF wf2 st2 run2]
    wf1 polled_ceiling v wf2 run2 n2
  show ?thesis by (simp add: getCurrentPaymentStatus_def)
qed

subsection \<open>Closure of the payment window\<close>













end
